theory Spec2Isabelle
  imports Complex_Main "HOL-Library.Char_ord" "HOL-Library.List_Lexorder"
begin

section \<open>Text: characters, whitespace and the regular expressions of the resolver\<close>

text \<open>
  Text is a list of 8-bit characters. The character classes are the ones Python uses on
  the ASCII range: \<open>str.isspace\<close>, \<open>str.strip\<close>, \<open>str.split\<close> and the pattern
  \<open>\s\<close> share one whitespace class (TAB, LF, VT, FF, CR, FS, GS, RS, US and the blank);
  \<open>\w\<close> is letters, digits and the underscore; \<open>str.lower\<close> maps \<open>A..Z\<close> to \<open>a..z\<close>.
  A character above 127 is neither whitespace nor a word character and has no lower case.
  Confidence scores are Python floats; they are modelled as exact rationals, which is what
  the comparisons against the thresholds see.
\<close>

definition is_space :: "char \<Rightarrow> bool" where
  "is_space c = (c \<in> set [CHR 0x09, CHR 0x0A, CHR 0x0B, CHR 0x0C, CHR 0x0D,
                            CHR 0x1C, CHR 0x1D, CHR 0x1E, CHR 0x1F, CHR 0x20])"

definition is_word :: "char \<Rightarrow> bool" where
  "is_word c = (let n = (of_char c :: nat) in
     (48 \<le> n \<and> n \<le> 57) \<or> (65 \<le> n \<and> n \<le> 90) \<or> n = 95 \<or> (97 \<le> n \<and> n \<le> 122))"

definition lower_char :: "char \<Rightarrow> char" where
  "lower_char c = (let n = (of_char c :: nat) in
     if 65 \<le> n \<and> n \<le> 90 then char_of (n + 32) else c)"

definition lower :: "string \<Rightarrow> string" where
  "lower s = map lower_char s"

definition strip :: "string \<Rightarrow> string" where
  "strip s = dropWhile is_space (rev (dropWhile is_space (rev s)))"

text \<open>\<open>str.split()\<close>: the maximal runs of non-whitespace characters, in order.\<close>

fun split_acc :: "string \<Rightarrow> string \<Rightarrow> string list" where
  "split_acc w [] = (if w = [] then [] else [w])"
| "split_acc w (c # cs) =
     (if is_space c then (if w = [] then split_acc [] cs else w # split_acc [] cs)
      else split_acc (w @ [c]) cs)"

definition split :: "string \<Rightarrow> string list" where
  "split s = split_acc [] s"

text \<open>Python's \<open>x in y\<close> on strings: \<open>x\<close> occurs in \<open>y\<close> as a contiguous block.\<close>

fun starts_with :: "string \<Rightarrow> string \<Rightarrow> bool" where
  "starts_with [] ys = True"
| "starts_with (x # xs) [] = False"
| "starts_with (x # xs) (y # ys) = (x = y \<and> starts_with xs ys)"

fun str_in :: "string \<Rightarrow> string \<Rightarrow> bool" where
  "str_in xs [] = (xs = [])"
| "str_in xs (y # ys) = (starts_with xs (y # ys) \<or> str_in xs ys)"

text \<open>
  \<open>re.sub(r'\s+(dot\s+)?SUF$', '', s)\<close>. The pattern is anchored at the end, so it
  matches at most once: from the leftmost position whose rest of the string is a run of
  whitespace, optionally \<open>dot\<close> and a run of whitespace, and then the suffix.
  \<open>$\<close> also matches just before a line feed that ends the string.
\<close>

definition suffix_match :: "string \<Rightarrow> string \<Rightarrow> bool" where
  "suffix_match suf t =
     (let r = dropWhile is_space t in
      t \<noteq> [] \<and> is_space (hd t) \<and>
      (r = suf \<or>
       (take 3 r = ''dot'' \<and>
        (let r' = drop 3 r in
         r' \<noteq> [] \<and> is_space (hd r') \<and> dropWhile is_space r' = suf))))"

fun cut_suffix :: "string \<Rightarrow> string \<Rightarrow> string" where
  "cut_suffix suf [] = []"
| "cut_suffix suf (c # cs) =
     (if suffix_match suf (c # cs) then [] else c # cut_suffix suf cs)"

definition sub_suffix :: "string \<Rightarrow> string \<Rightarrow> string" where
  "sub_suffix suf s =
     (if s \<noteq> [] \<and> last s = CHR 0x0A then cut_suffix suf (butlast s) @ [CHR 0x0A]
      else cut_suffix suf s)"

text \<open>\<open>re.sub(r'[^\w\s]', ' ', s)\<close>: every other character becomes a blank.\<close>

definition sub_punctuation :: "string \<Rightarrow> string" where
  "sub_punctuation s = map (\<lambda>c. if is_word c \<or> is_space c then c else CHR '' '') s"

text \<open>\<open>re.sub(r'\s+', ' ', s)\<close>: every maximal run of whitespace becomes one blank.\<close>

fun sub_spaces_run :: "bool \<Rightarrow> string \<Rightarrow> string" where
  "sub_spaces_run in_run [] = []"
| "sub_spaces_run in_run (c # cs) =
     (if is_space c then (if in_run then sub_spaces_run True cs
                          else CHR '' '' # sub_spaces_run True cs)
      else c # sub_spaces_run False cs)"

definition sub_spaces :: "string \<Rightarrow> string" where
  "sub_spaces s = sub_spaces_run False s"

section \<open>Catalog, results and the collaborating libraries\<close>

text \<open>
  The catalog is the dictionary \<open>sites\<close>: canonical name to aliases, in insertion order
  (the order \<open>items()\<close> iterates in).
\<close>

type_synonym catalog = "(string \<times> string list) list"

text \<open>
  \<open>ResolutionResult\<close> of resolve.py has five fields; the dataclass of
  resolve\_deterministic.py has the same five and \<open>needs_confirmation\<close>, default False.
\<close>

record ResolutionResult =
  site :: "string option"
  confidence :: rat
  method_name :: string
  original_text :: string
  cleaned_text :: string

record DResolutionResult = ResolutionResult +
  needs_confirmation :: bool

text \<open>
  Two libraries are parameters of the resolvers. \<open>extractOne text choices\<close> stands for
  \<open>rapidfuzz.process.extractOne(text, choices, scorer=fuzz.ratio)\<close>: the best choice and
  its score, or None. \<open>doublemetaphone s\<close> is the pair of phonetic codes of \<open>s\<close>.
\<close>

type_synonym extract_one = "string \<Rightarrow> string list \<Rightarrow> (string \<times> rat) option"
type_synonym metaphone = "string \<Rightarrow> string \<times> string"

definition get_all_aliases :: "catalog \<Rightarrow> string list" where
  "get_all_aliases sites = concat (map snd sites)"

text \<open>
  The loop of \<open>_phonetic_match\<close>, the same in both resolvers: over every alias of every
  site, keeping \<open>(best_score, best_site)\<close>.
\<close>

definition phonetic_step ::
  "string \<times> string \<Rightarrow> string \<Rightarrow> string \<times> string \<Rightarrow> rat \<times> string option \<Rightarrow> rat \<times> string option" where
  "phonetic_step text_phonetic canonical alias_phonetic best =
     (if fst text_phonetic \<noteq> [] \<and> fst alias_phonetic \<noteq> [] then
        (if fst text_phonetic = fst alias_phonetic then
           (if 0.9 > fst best then (0.9, Some canonical) else best)
         else if snd text_phonetic \<noteq> [] \<and> snd alias_phonetic \<noteq> []
                 \<and> snd text_phonetic = snd alias_phonetic then
           (if 0.8 > fst best then (0.8, Some canonical) else best)
         else best)
      else best)"

definition phonetic_scan :: "metaphone \<Rightarrow> catalog \<Rightarrow> string \<Rightarrow> rat \<times> string option" where
  "phonetic_scan doublemetaphone sites text =
     (let text_phonetic = doublemetaphone text in
      fold (\<lambda>(canonical, aliases) best.
              fold (\<lambda>alias. phonetic_step text_phonetic canonical (doublemetaphone alias))
                   aliases best)
           sites (0, None))"

text \<open>
  The loop of \<open>_partial_match\<close>, the same in both resolvers. \<open>matches\<close> counts the
  words of the text that contain, or are contained in, some word of the alias.
\<close>

definition count_matches :: "string list \<Rightarrow> string list \<Rightarrow> nat" where
  "count_matches words alias_words =
     length (filter (\<lambda>word. list_ex (\<lambda>alias_word. str_in word alias_word \<or> str_in alias_word word)
                                     alias_words) words)"

definition partial_step ::
  "string list \<Rightarrow> string \<Rightarrow> string \<Rightarrow> rat \<times> string option \<Rightarrow> rat \<times> string option" where
  "partial_step words canonical alias best =
     (let alias_words = split alias;
          matches = count_matches words alias_words in
      if matches > 0 then
        (let score = of_nat matches / of_nat (max (length words) (length alias_words)) in
         if score > fst best \<and> score \<ge> 0.6 then (score, Some canonical) else best)
      else best)"

definition partial_scan :: "catalog \<Rightarrow> string \<Rightarrow> rat \<times> string option" where
  "partial_scan sites text =
     (let words = split text in
      fold (\<lambda>(canonical, aliases) best.
              fold (\<lambda>alias. partial_step words canonical alias) aliases best)
           sites (0, None))"

text \<open>
  \<open>for canonical, aliases in sites.items(): if text in aliases: return ...\<close>: the first
  site, in catalog order, that lists the text.
\<close>

definition find_canonical :: "catalog \<Rightarrow> string \<Rightarrow> string option" where
  "find_canonical sites text =
     map_option fst (find (\<lambda>(canonical, aliases). text \<in> set aliases) sites)"

section \<open>The deterministic resolver (blackbox/nlp/resolve\_deterministic.py)\<close>

definition accept_threshold :: rat where "accept_threshold = 0.88"
definition llm_threshold :: rat where "llm_threshold = 0.82"
definition confirmation_threshold :: rat where "confirmation_threshold = 0.75"

definition dresult :: "string option \<Rightarrow> rat \<Rightarrow> string \<Rightarrow> string \<Rightarrow> string \<Rightarrow> DResolutionResult" where
  "dresult s c m ot ct =
     \<lparr>site = s, confidence = c, method_name = m, original_text = ot, cleaned_text = ct,
      needs_confirmation = False\<rparr>"

definition DeterministicResolver_normalize_text :: "string \<Rightarrow> string" where
  "DeterministicResolver_normalize_text text =
     (let normalized = strip (lower text);
          normalized = sub_suffix ''com'' normalized;
          normalized = sub_suffix ''org'' normalized;
          normalized = sub_suffix ''net'' normalized;
          normalized = sub_suffix ''edu'' normalized;
          normalized = sub_suffix ''gov'' normalized;
          normalized = sub_suffix ''mil'' normalized;
          normalized = sub_punctuation normalized;
          normalized = strip (sub_spaces normalized)
      in normalized)"

definition DeterministicResolver_exact_match :: "catalog \<Rightarrow> string \<Rightarrow> DResolutionResult" where
  "DeterministicResolver_exact_match sites text =
     (if text \<in> set (get_all_aliases sites) then
        (case find_canonical sites text of
           Some canonical \<Rightarrow> dresult (Some canonical) 1.0 ''exact_match'' text text
         | None \<Rightarrow> dresult None 0.0 ''exact_match'' text text)
      else dresult None 0.0 ''exact_match'' text text)"

definition DeterministicResolver_fuzzy_match ::
  "extract_one \<Rightarrow> catalog \<Rightarrow> string \<Rightarrow> DResolutionResult" where
  "DeterministicResolver_fuzzy_match extractOne sites text =
     (let all_aliases = get_all_aliases sites in
      if all_aliases = [] then dresult None 0.0 ''fuzzy_match'' text text
      else
        (case extractOne text all_aliases of
           Some best_match \<Rightarrow>
             (if snd best_match \<ge> 70 then
                (case find_canonical sites (fst best_match) of
                   Some canonical \<Rightarrow>
                     dresult (Some canonical) (snd best_match / 100) ''fuzzy_match'' text text
                 | None \<Rightarrow> dresult None 0.0 ''fuzzy_match'' text text)
              else dresult None 0.0 ''fuzzy_match'' text text)
         | None \<Rightarrow> dresult None 0.0 ''fuzzy_match'' text text))"

definition DeterministicResolver_phonetic_match ::
  "metaphone \<Rightarrow> catalog \<Rightarrow> string \<Rightarrow> DResolutionResult" where
  "DeterministicResolver_phonetic_match doublemetaphone sites text =
     (let best = phonetic_scan doublemetaphone sites text in
      if fst best \<ge> 0.8 then dresult (snd best) (fst best) ''phonetic_match'' text text
      else dresult None 0.0 ''phonetic_match'' text text)"

definition DeterministicResolver_partial_match :: "catalog \<Rightarrow> string \<Rightarrow> DResolutionResult" where
  "DeterministicResolver_partial_match sites text =
     (let best = partial_scan sites text in
      if fst best \<ge> 0.6 then dresult (snd best) (fst best) ''partial_match'' text text
      else dresult None 0.0 ''partial_match'' text text)"

text \<open>The loop over the four strategies keeps a result only if it is strictly better.\<close>

definition keep_best ::
  "'a ResolutionResult_scheme \<Rightarrow> 'a ResolutionResult_scheme \<Rightarrow> 'a ResolutionResult_scheme" where
  "keep_best result best_result =
     (if confidence result > confidence best_result then result else best_result)"

definition DeterministicResolver_resolve_site ::
  "extract_one \<Rightarrow> metaphone \<Rightarrow> catalog \<Rightarrow> string \<Rightarrow> DResolutionResult" where
  "DeterministicResolver_resolve_site extractOne doublemetaphone sites text =
     (if text = [] then dresult None 0.0 ''none'' text []
      else
        (let cleaned = DeterministicResolver_normalize_text text;
             strategies = [DeterministicResolver_exact_match sites,
                           DeterministicResolver_fuzzy_match extractOne sites,
                           DeterministicResolver_phonetic_match doublemetaphone sites,
                           DeterministicResolver_partial_match sites];
             best_result = fold (\<lambda>strategy. keep_best (strategy cleaned)) strategies
                                (dresult None 0.0 ''deterministic'' text cleaned)
         in if confidence best_result \<ge> accept_threshold
            then best_result\<lparr>needs_confirmation := False\<rparr>
            else if confidence best_result \<ge> confirmation_threshold
            then best_result\<lparr>needs_confirmation := True\<rparr>
            else best_result\<lparr>needs_confirmation := False\<rparr>))"

section \<open>Heuristics with LLM fallback (blackbox/nlp/resolve.py)\<close>

definition hresult :: "string option \<Rightarrow> rat \<Rightarrow> string \<Rightarrow> string \<Rightarrow> string \<Rightarrow> ResolutionResult" where
  "hresult s c m ot ct =
     \<lparr>site = s, confidence = c, method_name = m, original_text = ot, cleaned_text = ct\<rparr>"

definition HeuristicResolver_normalize_text :: "string \<Rightarrow> string" where
  "HeuristicResolver_normalize_text text =
     (let normalized = strip (lower text);
          normalized = sub_suffix ''com'' normalized;
          normalized = sub_suffix ''org'' normalized;
          normalized = sub_suffix ''net'' normalized;
          normalized = sub_suffix ''edu'' normalized;
          normalized = strip (sub_spaces normalized)
      in normalized)"

definition HeuristicResolver_exact_match :: "catalog \<Rightarrow> string \<Rightarrow> ResolutionResult" where
  "HeuristicResolver_exact_match sites text =
     (if text \<in> set (get_all_aliases sites) then
        (case find_canonical sites text of
           Some canonical \<Rightarrow> hresult (Some canonical) 1.0 ''heuristic'' text text
         | None \<Rightarrow> hresult None 0.0 ''heuristic'' text text)
      else hresult None 0.0 ''heuristic'' text text)"

definition HeuristicResolver_fuzzy_match ::
  "extract_one \<Rightarrow> catalog \<Rightarrow> string \<Rightarrow> ResolutionResult" where
  "HeuristicResolver_fuzzy_match extractOne sites text =
     (let all_aliases = get_all_aliases sites in
      if all_aliases = [] then hresult None 0.0 ''heuristic'' text text
      else
        (case extractOne text all_aliases of
           Some best_match \<Rightarrow>
             (if snd best_match \<ge> 82 then
                (case find_canonical sites (fst best_match) of
                   Some canonical \<Rightarrow>
                     hresult (Some canonical) (snd best_match / 100) ''heuristic'' text text
                 | None \<Rightarrow> hresult None 0.0 ''heuristic'' text text)
              else hresult None 0.0 ''heuristic'' text text)
         | None \<Rightarrow> hresult None 0.0 ''heuristic'' text text))"

definition HeuristicResolver_phonetic_match ::
  "metaphone \<Rightarrow> catalog \<Rightarrow> string \<Rightarrow> ResolutionResult" where
  "HeuristicResolver_phonetic_match doublemetaphone sites text =
     (let best = phonetic_scan doublemetaphone sites text in
      if fst best \<ge> 0.8 then hresult (snd best) (fst best) ''heuristic'' text text
      else hresult None 0.0 ''heuristic'' text text)"

definition HeuristicResolver_partial_match :: "catalog \<Rightarrow> string \<Rightarrow> ResolutionResult" where
  "HeuristicResolver_partial_match sites text =
     (let best = partial_scan sites text in
      if fst best \<ge> 0.6 then hresult (snd best) (fst best) ''heuristic'' text text
      else hresult None 0.0 ''heuristic'' text text)"

definition HeuristicResolver_resolve_site ::
  "extract_one \<Rightarrow> metaphone \<Rightarrow> catalog \<Rightarrow> string \<Rightarrow> ResolutionResult" where
  "HeuristicResolver_resolve_site extractOne doublemetaphone sites text =
     (if text = [] then hresult None 0.0 ''none'' text []
      else
        (let cleaned = HeuristicResolver_normalize_text text;
             strategies = [HeuristicResolver_exact_match sites,
                           HeuristicResolver_fuzzy_match extractOne sites,
                           HeuristicResolver_phonetic_match doublemetaphone sites,
                           HeuristicResolver_partial_match sites]
         in fold (\<lambda>strategy. keep_best (strategy cleaned)) strategies
                 (hresult None 0.0 ''heuristic'' text cleaned)))"

text \<open>
  \<open>LLMResolver\<close>. \<open>is_available\<close> is what \<open>_check_llm_availability\<close> found when the
  object was built. The text the model answers is kept in decoded form: the JSON object
  that \<open>json.loads\<close> yields for the first \<open>{...}\<close> of the text, or None when there is no
  such object or it does not decode. \<open>_call_llm\<close> is the source's placeholder, which
  answers \<open>{"site": null, "confidence": 0.0}\<close> whatever the prompt; the fixed instructions
  of the prompt are left out of \<open>_create_prompt\<close>.
\<close>

datatype json = JNull | JString string | JNumber rat

type_synonym json_object = "(string \<times> json) list"

record LLMResolver =
  model_path :: string
  is_available :: bool

definition LLMResolver_create_prompt :: "string \<Rightarrow> string" where
  "LLMResolver_create_prompt text = ''Input: '' @ text"

definition LLMResolver_call_llm :: "string \<Rightarrow> json_object option" where
  "LLMResolver_call_llm prompt = Some [(''site'', JNull), (''confidence'', JNumber 0.0)]"

definition LLMResolver_parse_llm_response :: "json_object option \<Rightarrow> json_object" where
  "LLMResolver_parse_llm_response response =
     (case response of
        Some obj \<Rightarrow> obj
      | None \<Rightarrow> [(''site'', JNull), (''confidence'', JNumber 0.0)])"

text \<open>
  \<open>result.get("site")\<close> and \<open>result.get("confidence", 0.0)\<close>, read at the types the
  dataclass declares: a site that is not a string reads as None, a confidence that is
  not a number as 0.
\<close>

definition get_site :: "json_object \<Rightarrow> string option" where
  "get_site obj = (case map_of obj ''site'' of Some (JString s) \<Rightarrow> Some s | _ \<Rightarrow> None)"

definition get_confidence :: "json_object \<Rightarrow> rat" where
  "get_confidence obj = (case map_of obj ''confidence'' of Some (JNumber c) \<Rightarrow> c | _ \<Rightarrow> 0.0)"

definition LLMResolver_resolve_site :: "LLMResolver \<Rightarrow> string \<Rightarrow> ResolutionResult" where
  "LLMResolver_resolve_site llm text =
     (if \<not> is_available llm then hresult None 0.0 ''llm'' text text
      else
        (let prompt = LLMResolver_create_prompt text;
             response = LLMResolver_call_llm prompt;
             result = LLMResolver_parse_llm_response response
         in hresult (get_site result) (get_confidence result) ''llm'' text text))"

text \<open>
  \<open>IntentResolver._resolve_site_name\<close>, over its two collaborators
  \<open>self.heuristic_resolver.resolve_site\<close> and \<open>self.llm_resolver.resolve_site\<close>. The
  second component of the result is the list of texts the LLM resolver was called with.
\<close>

definition resolve_site_name ::
  "(string \<Rightarrow> ResolutionResult) \<Rightarrow> (string \<Rightarrow> ResolutionResult) \<Rightarrow> string
     \<Rightarrow> ResolutionResult \<times> string list" where
  "resolve_site_name heuristic_resolve_site llm_resolve_site text =
     (let heuristic_result = heuristic_resolve_site text in
      if confidence heuristic_result \<ge> 0.82 then (heuristic_result, [])
      else if confidence heuristic_result < 0.65 then
        (let llm_result = llm_resolve_site text in
         if confidence llm_result > confidence heuristic_result then (llm_result, [text])
         else (heuristic_result, [text]))
      else (heuristic_result, []))"

text \<open>The resolver as \<open>IntentResolver.__init__\<close> assembles it.\<close>

definition IntentResolver_resolve_site_name ::
  "extract_one \<Rightarrow> metaphone \<Rightarrow> catalog \<Rightarrow> LLMResolver \<Rightarrow> string \<Rightarrow> ResolutionResult \<times> string list" where
  "IntentResolver_resolve_site_name extractOne doublemetaphone sites llm text =
     resolve_site_name (HeuristicResolver_resolve_site extractOne doublemetaphone sites)
                       (LLMResolver_resolve_site llm) text"

section \<open>The vault (blackbox/vault/db.py)\<close>

subsection \<open>Clock, key derivation and the storage engine\<close>

text \<open>
  \<open>time.time()\<close>, \<open>datetime.now()\<close> and SQL's \<open>CURRENT_TIMESTAMP\<close> read one clock; every
  operation takes its reading \<open>now\<close>, in seconds. Calls of the logger are left out.
\<close>

type_synonym time = rat

text \<open>
  \<open>argon2.PasswordHasher\<close> is a parameter: \<open>hash\<close> with the salt it draws, and the
  outcome of \<open>verify\<close>, which returns, raises \<open>VerifyMismatchError\<close>, or raises
  another error of the library (an invalid hash, say).
\<close>

datatype verify_outcome = Verified | VerifyMismatch | VerifyFailure

record hasher =
  hash :: "string \<Rightarrow> string"
  verify :: "string \<Rightarrow> string \<Rightarrow> verify_outcome"

datatype exn = DatabaseError | OperationalError | AttributeError | FileNotFoundError
  | SameFileError | VerifyMismatchError | VerificationError

record VaultEntry =
  entry_id :: nat
  entry_site :: string
  entry_username :: "string option"
  entry_password :: string
  entry_memo :: "string option"
  entry_created_at :: time
  entry_updated_at :: time
  entry_access_count :: nat
  entry_last_accessed :: "time option"

text \<open>
  A value of table \<open>vault_metadata\<close> is TEXT: a hash, or a time in ISO format, kept as
  the time it denotes.
\<close>

datatype meta_value = Text string | Timestamp time

text \<open>
  Modelled from the spec: the storage engine behind \<open>sqlite3\<close>. A store file has the key
  it is encrypted under (None for a plain file) and holds the two tables once they are
  created; rows of \<open>vault_entries\<close> are in rowid order and \<open>seq\<close> is the largest rowid
  AUTOINCREMENT has given out. A connection has the key set on it, None when none is set.
  Reading through a connection raises \<open>DatabaseError\<close> when the file is not a store or
  the keys differ; a missing or empty file reads as a new store without tables, and a
  statement on a missing table raises \<open>OperationalError\<close>. Statements take effect in
  the file at \<open>commit\<close>.
\<close>

record database =
  db_key :: "string option"
  has_tables :: bool
  vault_entries :: "VaultEntry list"
  vault_metadata :: "string \<rightharpoonup> meta_value"
  seq :: nat

datatype store_file = EmptyFile | Database database | NotADatabase

type_synonym files = "string \<rightharpoonup> store_file"

record connection =
  conn_path :: string
  conn_key :: "string option"

definition sqlite3_connect :: "string \<Rightarrow> files \<Rightarrow> connection \<times> files" where
  "sqlite3_connect path fs =
     (\<lparr>conn_path = path, conn_key = None\<rparr>,
      if fs path = None then fs(path \<mapsto> EmptyFile) else fs)"

text \<open>
  \<open>connection.execute("PRAGMA key = ?", (passphrase,))\<close>, through the standard \<open>sqlite3\<close>
  module the vault imports. SQLite binds no parameter in a PRAGMA: the statement is a
  syntax error at the question mark and raises \<open>OperationalError\<close>, on every call and
  whatever the passphrase, so that no key is ever set on the connection.
\<close>

definition pragma_key :: "string \<Rightarrow> connection \<Rightarrow> exn + connection" where
  "pragma_key passphrase c = Inl OperationalError"

definition new_database :: "string option \<Rightarrow> database" where
  "new_database k =
     \<lparr>db_key = k, has_tables = False, vault_entries = [], vault_metadata = Map.empty, seq = 0\<rparr>"

definition read_db :: "files \<Rightarrow> connection \<Rightarrow> exn + database" where
  "read_db fs c =
     (case fs (conn_path c) of
        None \<Rightarrow> Inr (new_database (conn_key c))
      | Some EmptyFile \<Rightarrow> Inr (new_database (conn_key c))
      | Some NotADatabase \<Rightarrow> Inl DatabaseError
      | Some (Database d) \<Rightarrow> if db_key d = conn_key c then Inr d else Inl DatabaseError)"

definition read_tables :: "files \<Rightarrow> connection \<Rightarrow> exn + database" where
  "read_tables fs c =
     (case read_db fs c of
        Inl e \<Rightarrow> Inl e
      | Inr d \<Rightarrow> if has_tables d then Inr d else Inl OperationalError)"

definition commit :: "files \<Rightarrow> connection \<Rightarrow> database \<Rightarrow> files" where
  "commit fs c d = fs(conn_path c \<mapsto> Database d)"

text \<open>
  SQL's \<open>LIKE\<close>: \<open>%\<close> stands for any run of characters, \<open>_\<close> for any one character, and
  letters compare without regard to case.
\<close>

fun like :: "string \<Rightarrow> string \<Rightarrow> bool" where
  "like [] s = (s = [])"
| "like (p # ps) s =
     (if p = CHR ''%'' then
        (like ps s \<or> (case s of [] \<Rightarrow> False | c # cs \<Rightarrow> like (p # ps) cs))
      else
        (case s of
           [] \<Rightarrow> False
         | c # cs \<Rightarrow> (p = CHR ''_'' \<or> lower_char p = lower_char c) \<and> like ps cs))"

subsection \<open>VaultDatabase\<close>

record VaultDatabase =
  db_path :: string
  connection :: "connection option"
  is_unlocked :: bool
  master_key :: "string option"
  idle_timeout :: time
  last_activity :: time

definition VaultDatabase_init :: "time \<Rightarrow> string \<Rightarrow> VaultDatabase" where
  "VaultDatabase_init now path =
     \<lparr>db_path = path, connection = None, is_unlocked = False, master_key = None,
      idle_timeout = 300, last_activity = now\<rparr>"

text \<open>
  \<open>_create_tables\<close>, on the open connection: both tables are created if they are not
  there, the master hash is stored when \<open>self.master_key\<close> is set and not empty.
\<close>

definition create_tables :: "VaultDatabase \<Rightarrow> files \<Rightarrow> exn + files" where
  "create_tables v fs =
     (case connection v of
        None \<Rightarrow> Inl AttributeError
      | Some c \<Rightarrow>
          (case read_db fs c of
             Inl e \<Rightarrow> Inl e
           | Inr d \<Rightarrow>
               (let d1 = d\<lparr>has_tables := True\<rparr>;
                    d2 = (case master_key v of
                            None \<Rightarrow> d1
                          | Some k \<Rightarrow> if k = [] then d1
                                      else d1\<lparr>vault_metadata :=
                                                (vault_metadata d1)(''master_hash'' \<mapsto> Text k)\<rparr>)
                in Inr (commit fs c d2))))"

definition initialize_vault ::
  "hasher \<Rightarrow> time \<Rightarrow> string \<Rightarrow> VaultDatabase \<Rightarrow> files \<Rightarrow> bool \<times> VaultDatabase \<times> files" where
  "initialize_vault h now master_passphrase v fs =
     (let v1 = v\<lparr>master_key := Some (hash h master_passphrase)\<rparr>;
          (c, fs1) = sqlite3_connect (db_path v1) fs;
          v2 = v1\<lparr>connection := Some c\<rparr>
      in case pragma_key master_passphrase c of
           Inl e \<Rightarrow> (False, v2, fs1)
         | Inr keyed \<Rightarrow>
             (let v3 = v2\<lparr>connection := Some keyed\<rparr>
              in case create_tables v3 fs1 of
                   Inl e \<Rightarrow> (False, v3, fs1)
                 | Inr fs2 \<Rightarrow> (True, v3\<lparr>is_unlocked := True, last_activity := now\<rparr>, fs2)))"

text \<open>
  \<open>_get_master_hash\<close>: the stored hash, None when there is no such row or the query
  raises.
\<close>

definition get_master_hash :: "VaultDatabase \<Rightarrow> files \<Rightarrow> string option" where
  "get_master_hash v fs =
     (case connection v of
        None \<Rightarrow> None
      | Some c \<Rightarrow>
          (case read_tables fs c of
             Inl e \<Rightarrow> None
           | Inr d \<Rightarrow> (case vault_metadata d ''master_hash'' of
                         Some (Text s) \<Rightarrow> Some s
                       | _ \<Rightarrow> None)))"

definition unlock_vault ::
  "hasher \<Rightarrow> time \<Rightarrow> string \<Rightarrow> VaultDatabase \<Rightarrow> files \<Rightarrow> bool \<times> VaultDatabase \<times> files" where
  "unlock_vault h now master_passphrase v fs =
     (let (c0, fs1) = sqlite3_connect (db_path v) fs;
          v0 = v\<lparr>connection := Some c0\<rparr>
      in case pragma_key master_passphrase c0 of
           Inl e \<Rightarrow> (False, v0, fs1)
         | Inr c \<Rightarrow>
             (let v1 = v\<lparr>connection := Some c\<rparr>;
                  unlocked = v1\<lparr>master_key := Some master_passphrase, is_unlocked := True,
                                last_activity := now\<rparr>
              in case read_db fs1 c of
                   Inl e \<Rightarrow> (False, v1, fs1)
                 | Inr d \<Rightarrow>
                     (case get_master_hash v1 fs1 of
                        None \<Rightarrow> (True, unlocked, fs1)
                      | Some stored_hash \<Rightarrow>
                          if stored_hash = [] then (True, unlocked, fs1)
                          else (case verify h stored_hash master_passphrase of
                                  Verified \<Rightarrow> (True, unlocked, fs1)
                                | VerifyMismatch \<Rightarrow> (False, v1, fs1)
                                | VerifyFailure \<Rightarrow> (False, v1, fs1)))))"

definition lock_vault :: "VaultDatabase \<Rightarrow> VaultDatabase" where
  "lock_vault v = v\<lparr>connection := None, is_unlocked := False, master_key := None,
                     last_activity := 0\<rparr>"

definition check_auto_lock :: "time \<Rightarrow> VaultDatabase \<Rightarrow> VaultDatabase" where
  "check_auto_lock now v =
     (if is_unlocked v \<and> now - last_activity v > idle_timeout v then lock_vault v else v)"

definition update_activity :: "time \<Rightarrow> VaultDatabase \<Rightarrow> VaultDatabase" where
  "update_activity now v = v\<lparr>last_activity := now\<rparr>"

text \<open>
  The part every operation opens with: the lock check, the idle check, and the cursor
  on the connection. \<open>Inl v'\<close> is the early return (or the exception caught at once),
  with the vault as it is then.
\<close>

definition enter :: "time \<Rightarrow> VaultDatabase \<Rightarrow> VaultDatabase + VaultDatabase \<times> connection" where
  "enter now v =
     (if \<not> is_unlocked v then Inl v
      else
        (let v1 = check_auto_lock now v in
         if \<not> is_unlocked v1 then Inl v1
         else (case connection v1 of None \<Rightarrow> Inl v1 | Some c \<Rightarrow> Inr (v1, c))))"

definition save_password ::
  "time \<Rightarrow> string \<Rightarrow> string \<Rightarrow> string option \<Rightarrow> string option \<Rightarrow> VaultDatabase \<Rightarrow> files
     \<Rightarrow> bool \<times> VaultDatabase \<times> files" where
  "save_password now site_name password username memo v fs =
     (case enter now v of
        Inl v' \<Rightarrow> (False, v', fs)
      | Inr (v1, c) \<Rightarrow>
          (case read_tables fs c of
             Inl e \<Rightarrow> (False, v1, fs)
           | Inr d \<Rightarrow>
               (let existing = find (\<lambda>r. entry_site r = site_name) (vault_entries d);
                    d' = (case existing of
                            Some r \<Rightarrow>
                              d\<lparr>vault_entries :=
                                   map (\<lambda>r. if entry_site r = site_name
                                            then r\<lparr>entry_password := password,
                                                   entry_username := username,
                                                   entry_memo := memo,
                                                   entry_updated_at := now\<rparr>
                                            else r) (vault_entries d)\<rparr>
                          | None \<Rightarrow>
                              d\<lparr>vault_entries := vault_entries d @
                                   [\<lparr>entry_id = Suc (seq d), entry_site = site_name,
                                     entry_username = username, entry_password = password,
                                     entry_memo = memo, entry_created_at = now,
                                     entry_updated_at = now, entry_access_count = 0,
                                     entry_last_accessed = None\<rparr>],
                                seq := Suc (seq d)\<rparr>)
                in (True, update_activity now v1, commit fs c d'))))"

definition retrieve_password ::
  "time \<Rightarrow> string \<Rightarrow> VaultDatabase \<Rightarrow> files \<Rightarrow> VaultEntry option \<times> VaultDatabase \<times> files" where
  "retrieve_password now site_name v fs =
     (case enter now v of
        Inl v' \<Rightarrow> (None, v', fs)
      | Inr (v1, c) \<Rightarrow>
          (case read_tables fs c of
             Inl e \<Rightarrow> (None, v1, fs)
           | Inr d \<Rightarrow>
               (case find (\<lambda>r. entry_site r = site_name) (vault_entries d) of
                  None \<Rightarrow> (None, v1, fs)
                | Some result \<Rightarrow>
                    (let d' = d\<lparr>vault_entries :=
                                  map (\<lambda>r. if entry_id r = entry_id result
                                           then r\<lparr>entry_access_count := entry_access_count r + 1,
                                                  entry_last_accessed := Some now\<rparr>
                                           else r) (vault_entries d)\<rparr>
                     in (Some (result\<lparr>entry_access_count := entry_access_count result + 1,
                                      entry_last_accessed := Some now\<rparr>),
                         update_activity now v1, commit fs c d')))))"

definition list_entries ::
  "time \<Rightarrow> VaultDatabase \<Rightarrow> files \<Rightarrow> VaultEntry list \<times> VaultDatabase \<times> files" where
  "list_entries now v fs =
     (case enter now v of
        Inl v' \<Rightarrow> ([], v', fs)
      | Inr (v1, c) \<Rightarrow>
          (case read_tables fs c of
             Inl e \<Rightarrow> ([], v1, fs)
           | Inr d \<Rightarrow> (sort_key entry_site (vault_entries d), update_activity now v1, fs)))"

definition delete_entry ::
  "time \<Rightarrow> string \<Rightarrow> VaultDatabase \<Rightarrow> files \<Rightarrow> bool \<times> VaultDatabase \<times> files" where
  "delete_entry now site_name v fs =
     (case enter now v of
        Inl v' \<Rightarrow> (False, v', fs)
      | Inr (v1, c) \<Rightarrow>
          (case read_tables fs c of
             Inl e \<Rightarrow> (False, v1, fs)
           | Inr d \<Rightarrow>
               (let rowcount = length (filter (\<lambda>r. entry_site r = site_name) (vault_entries d));
                    d' = d\<lparr>vault_entries :=
                             filter (\<lambda>r. entry_site r \<noteq> site_name) (vault_entries d)\<rparr>
                in if rowcount > 0 then (True, update_activity now v1, commit fs c d')
                   else (False, v1, fs))))"

definition search_entries ::
  "time \<Rightarrow> string \<Rightarrow> VaultDatabase \<Rightarrow> files \<Rightarrow> VaultEntry list \<times> VaultDatabase \<times> files" where
  "search_entries now query v fs =
     (case enter now v of
        Inl v' \<Rightarrow> ([], v', fs)
      | Inr (v1, c) \<Rightarrow>
          (case read_tables fs c of
             Inl e \<Rightarrow> ([], v1, fs)
           | Inr d \<Rightarrow>
               (let pattern = ''%'' @ query @ ''%'';
                    hits = filter (\<lambda>r. like pattern (entry_site r)
                                        \<or> (case entry_username r of
                                              None \<Rightarrow> False
                                            | Some u \<Rightarrow> like pattern u))
                                  (vault_entries d)
                in (sort_key entry_site hits, update_activity now v1, fs))))"

text \<open>
  \<open>backup_vault\<close>. \<open>os.makedirs(os.path.dirname(backup_path))\<close> raises when the path has
  no directory part; \<open>shutil.copy2\<close> raises when the store file is missing or is the
  target itself. What was copied stays when a later statement raises.
\<close>

definition copy2 :: "string \<Rightarrow> string \<Rightarrow> files \<Rightarrow> exn + files" where
  "copy2 src dst fs =
     (case fs src of
        None \<Rightarrow> Inl FileNotFoundError
      | Some f \<Rightarrow> if src = dst then Inl SameFileError else Inr (fs(dst \<mapsto> f)))"

definition backup_vault ::
  "time \<Rightarrow> string \<Rightarrow> VaultDatabase \<Rightarrow> files \<Rightarrow> bool \<times> VaultDatabase \<times> files" where
  "backup_vault now backup_path v fs =
     (if \<not> is_unlocked v then (False, v, fs)
      else
        (let v1 = check_auto_lock now v in
         if \<not> is_unlocked v1 then (False, v1, fs)
         else if CHR ''/'' \<notin> set backup_path then (False, v1, fs)
         else
           (case copy2 (db_path v1) backup_path fs of
              Inl e \<Rightarrow> (False, v1, fs)
            | Inr fs1 \<Rightarrow>
                (case connection v1 of
                   None \<Rightarrow> (False, v1, fs1)
                 | Some c \<Rightarrow>
                     (case read_tables fs1 c of
                        Inl e \<Rightarrow> (False, v1, fs1)
                      | Inr d \<Rightarrow>
                          (let d' = d\<lparr>vault_metadata :=
                                        (vault_metadata d)(''last_backup'' \<mapsto> Timestamp now)\<rparr>
                           in (True, update_activity now v1, commit fs1 c d')))))))"

text \<open>
  \<open>change_master_passphrase\<close>. \<open>Connection.backup\<close> copies the store into the new
  connection's file, under that connection's key; \<open>os.replace\<close> moves the new file over
  the old one.
\<close>

definition change_master_passphrase ::
  "hasher \<Rightarrow> time \<Rightarrow> string \<Rightarrow> string \<Rightarrow> VaultDatabase \<Rightarrow> files
     \<Rightarrow> bool \<times> VaultDatabase \<times> files" where
  "change_master_passphrase h now old_passphrase new_passphrase v fs =
     (if \<not> is_unlocked v then (False, v, fs)
      else
        (case unlock_vault h now old_passphrase v fs of
           (False, v1, fs1) \<Rightarrow> (False, v1, fs1)
         | (True, v1, fs1) \<Rightarrow>
             (let new_db_path = db_path v1 @ ''.new'';
                  (nc0, fs2) = sqlite3_connect new_db_path fs1
              in case pragma_key new_passphrase nc0 of
                   Inl e \<Rightarrow> (False, v1, fs2)
                 | Inr new_connection \<Rightarrow>
                     (case connection v1 of
                        None \<Rightarrow> (False, v1, fs2)
                      | Some c \<Rightarrow>
                          (case read_db fs2 c of
                             Inl e \<Rightarrow> (False, v1, fs2)
                           | Inr d \<Rightarrow>
                               (case read_db fs2 new_connection of
                                  Inl e \<Rightarrow> (False, v1, fs2)
                                | Inr old_target \<Rightarrow>
                                    (let copied = d\<lparr>db_key := conn_key new_connection\<rparr>;
                                         fs3 = commit fs2 new_connection copied;
                                         new_master_key = hash h new_passphrase
                                     in if \<not> has_tables copied then (False, v1, fs3)
                                        else
                                          (let d' = copied\<lparr>vault_metadata :=
                                                      (vault_metadata copied)
                                                        (''master_hash'' \<mapsto> Text new_master_key)\<rparr>;
                                               fs4 = commit fs3 new_connection d';
                                               fs5 = (fs4(db_path v1 := fs4 new_db_path))
                                                       (new_db_path := None);
                                               (c1, fs6) = sqlite3_connect (db_path v1) fs5;
                                               v2 = v1\<lparr>connection := Some c1\<rparr>
                                           in case pragma_key new_passphrase c1 of
                                                Inl e \<Rightarrow> (False, v2, fs6)
                                              | Inr keyed \<Rightarrow>
                                                  (True,
                                                   update_activity now
                                                     (v2\<lparr>connection := Some keyed,
                                                         master_key := Some new_master_key\<rparr>),
                                                   fs6)))))))))"

section \<open>Reference collaborators for the examples\<close>

text \<open>
  The examples below need concrete libraries. \<open>fuzz_ratio\<close> is the normalised InDel
  similarity that rapidfuzz documents for \<open>fuzz.ratio\<close>: \<open>100 * 2 * lcs / (len a + len b)\<close>,
  and \<open>extractOne_ratio\<close> returns the first choice of highest ratio.
  \<open>metaphone_table\<close> gives the Double Metaphone codes of the strings the examples use
  (no code for any other string); the examples depend only on which of them are equal.
\<close>

fun lcs_length :: "string \<Rightarrow> string \<Rightarrow> nat" where
  "lcs_length [] ys = 0"
| "lcs_length (x # xs) [] = 0"
| "lcs_length (x # xs) (y # ys) =
     (if x = y then Suc (lcs_length xs ys)
      else max (lcs_length (x # xs) ys) (lcs_length xs (y # ys)))"

definition fuzz_ratio :: "string \<Rightarrow> string \<Rightarrow> rat" where
  "fuzz_ratio a b =
     (if a = [] \<and> b = [] then 100
      else 100 * of_nat (2 * lcs_length a b) / of_nat (length a + length b))"

fun extractOne_ratio :: extract_one where
  "extractOne_ratio text [] = None"
| "extractOne_ratio text (choice # choices) =
     (case extractOne_ratio text choices of
        None \<Rightarrow> Some (choice, fuzz_ratio text choice)
      | Some (c, s) \<Rightarrow> if fuzz_ratio text choice \<ge> s then Some (choice, fuzz_ratio text choice)
                      else Some (c, s))"

definition metaphone_table :: metaphone where
  "metaphone_table s =
     (if s = ''b a'' then (''P'', [])
      else if s = ''bank of america'' then (''PNKFMRK'', [])
      else if s = ''gmail'' then (''KML'', [])
      else if s = ''Gmail'' then (''KML'', [])
      else if s = ''gmaik'' then (''KMK'', [])
      else if s = ''google mail'' then (''KKLML'', [])
      else if s = ''google'' then (''KKL'', [])
      else if s = ''googol'' then (''KKL'', [])
      else if s = ''zzz'' then (''S'', ''S'')
      else ([], []))"

text \<open>
  For the vault: a hasher that tags the passphrase and verifies by comparison, a store at
  \<open>/db/vault.db\<close> under the key \<open>pw\<close> with one entry, the vault object as \<open>__init__\<close>
  leaves it, and an unlocked vault object whose connection reads that store.
\<close>

definition argon2_ref :: hasher where
  "argon2_ref =
     \<lparr>hash = (\<lambda>p. ''$argon2id$'' @ p),
      verify = (\<lambda>s p. if s = ''$argon2id$'' @ p then Verified else VerifyMismatch)\<rparr>"

definition gmail_entry :: VaultEntry where
  "gmail_entry =
     \<lparr>entry_id = 1, entry_site = ''gmail'', entry_username = None,
      entry_password = ''secret'', entry_memo = None, entry_created_at = 2,
      entry_updated_at = 2, entry_access_count = 0, entry_last_accessed = None\<rparr>"

definition store_ref :: database where
  "store_ref =
     \<lparr>db_key = Some ''pw'', has_tables = True, vault_entries = [gmail_entry],
      vault_metadata = [''master_hash'' \<mapsto> Text ''$argon2id$pw''], seq = 1\<rparr>"

definition files_ref :: files where
  "files_ref = [''/db/vault.db'' \<mapsto> Database store_ref]"

definition vault_ref :: VaultDatabase where
  "vault_ref = VaultDatabase_init 0 ''/db/vault.db''"

definition unlocked_ref :: VaultDatabase where
  "unlocked_ref =
     vault_ref\<lparr>connection := Some \<lparr>conn_path = ''/db/vault.db'', conn_key = Some ''pw''\<rparr>,
               master_key := Some ''pw'', is_unlocked := True, last_activity := 9\<rparr>"

section \<open>Invariants of the loops\<close>

text \<open>
  What the two scanning loops keep true of \<open>(best_score, best_site)\<close>, and what every
  strategy result satisfies: a score in \<open>[0, 1]\<close> that is 0 exactly when there is no site.
\<close>

definition scan_inv :: "rat \<times> string option \<Rightarrow> bool" where
  "scan_inv best = (0 \<le> fst best \<and> fst best \<le> 1 \<and> (snd best = None \<longleftrightarrow> fst best = 0))"

text \<open>
  The shape of a normalised text: whitespace is single blanks, never at either end, and
  every other character is a word character that \<open>lower\<close> leaves alone. \<open>ends_with\<close> is
  \<open>str.endswith\<close>, and the domain words are the six suffixes the normaliser strips.
\<close>

fun single_spaced :: "string \<Rightarrow> bool" where
  "single_spaced [] = True"
| "single_spaced [c] = (is_space c \<longrightarrow> c = CHR '' '')"
| "single_spaced (c # d # cs) =
     ((is_space c \<longrightarrow> c = CHR '' '' \<and> \<not> is_space d) \<and> single_spaced (d # cs))"

definition normal_form :: "string \<Rightarrow> bool" where
  "normal_form u =
     (single_spaced u
      \<and> (\<forall>c \<in> set u. \<not> is_space c \<longrightarrow> is_word c \<and> lower_char c = c)
      \<and> (u \<noteq> [] \<longrightarrow> \<not> is_space (hd u) \<and> \<not> is_space (last u)))"

definition ends_with :: "string \<Rightarrow> string \<Rightarrow> bool" where
  "ends_with x u = (length x \<le> length u \<and> drop (length u - length x) u = x)"

definition domain_words :: "string list" where
  "domain_words = [''com'', ''org'', ''net'', ''edu'', ''gov'', ''mil'']"

definition ends_in_domain_word :: "string \<Rightarrow> bool" where
  "ends_in_domain_word u = list_ex (\<lambda>w. ends_with (CHR '' '' # w) u) domain_words"


definition res_inv :: "'a ResolutionResult_scheme \<Rightarrow> bool" where
  "res_inv r = (0 \<le> confidence r \<and> (site r = None \<longleftrightarrow> confidence r = 0))"


section \<open>The scanning loops and the strategies\<close>

lemma fold_invariant:
  assumes "P b" and "\<And>x a. P a \<Longrightarrow> P (f x a)"
  shows "P (fold f xs b)"
  using assms by (induction xs arbitrary: b) auto

lemma phonetic_step_inv: "scan_inv best \<Longrightarrow> scan_inv (phonetic_step tp canonical ap best)"
  by (simp add: scan_inv_def phonetic_step_def)

lemma scan_inv_init: "scan_inv (0, None)"
  by (simp add: scan_inv_def)

lemma phonetic_scan_inv: "scan_inv (phonetic_scan dm sites text)"
  unfolding phonetic_scan_def Let_def
proof (rule fold_invariant[where P=scan_inv, OF scan_inv_init])
  fix x :: "string \<times> string list" and a :: "rat \<times> string option"
  assume a: "scan_inv a"
  obtain canonical aliases where x: "x = (canonical, aliases)" by (cases x)
  have "scan_inv (fold (\<lambda>alias. phonetic_step (dm text) canonical (dm alias)) aliases a)"
    by (rule fold_invariant[where P=scan_inv, OF a]) (rule phonetic_step_inv)
  then show "scan_inv ((case x of (canonical, aliases) \<Rightarrow> \<lambda>best.
       fold (\<lambda>alias. phonetic_step (dm text) canonical (dm alias)) aliases best) a)"
    by (simp add: x)
qed

lemma count_matches_le: "count_matches words alias_words \<le> length words"
  by (simp add: count_matches_def)

lemma partial_score_le_1:
  "(of_nat (count_matches words alias_words) :: rat)
     / of_nat (max (length words) (length alias_words)) \<le> 1"
proof (cases "max (length words) (length alias_words) = 0")
  case True
  then show ?thesis by simp
next
  case False
  have "count_matches words alias_words \<le> max (length words) (length alias_words)"
    using count_matches_le[of words alias_words] by simp
  then have "(of_nat (count_matches words alias_words) :: rat)
     \<le> of_nat (max (length words) (length alias_words))"
    by (simp only: of_nat_le_iff)
  moreover have "0 < max (length words) (length alias_words)"
    using False by (rule neq0_conv[THEN iffD1])
  then have "(0::rat) < of_nat (max (length words) (length alias_words))"
    by (simp only: of_nat_0_less_iff)
  ultimately show ?thesis
    by (simp only: divide_le_eq_1_pos)
qed

lemma scan_inv_new: "0 < s \<Longrightarrow> s \<le> 1 \<Longrightarrow> scan_inv (s, Some c)"
  by (simp add: scan_inv_def)

lemma partial_step_inv:
  assumes "scan_inv best"
  shows "scan_inv (partial_step words canonical alias best)"
proof -
  let ?s = "(of_nat (count_matches words (split alias)) :: rat)
     / of_nat (max (length words) (length (split alias)))"
  have le: "?s \<le> 1" by (rule partial_score_le_1)
  have "partial_step words canonical alias best = best
        \<or> (partial_step words canonical alias best = (?s, Some canonical) \<and> ?s \<ge> 0.6)"
    by (simp add: partial_step_def Let_def)
  then show ?thesis
  proof
    assume "partial_step words canonical alias best = best"
    then show ?thesis using assms by simp
  next
    assume h: "partial_step words canonical alias best = (?s, Some canonical) \<and> ?s \<ge> 0.6"
    then have "0 < ?s" by linarith
    then have "scan_inv (?s, Some canonical)" using le by (rule scan_inv_new)
    then show ?thesis using h by simp
  qed
qed

lemma partial_scan_inv: "scan_inv (partial_scan sites text)"
  unfolding partial_scan_def Let_def
proof (rule fold_invariant[where P=scan_inv, OF scan_inv_init])
  fix x :: "string \<times> string list" and a :: "rat \<times> string option"
  assume a: "scan_inv a"
  obtain canonical aliases where x: "x = (canonical, aliases)" by (cases x)
  have "scan_inv (fold (\<lambda>alias. partial_step (split text) canonical alias) aliases a)"
    by (rule fold_invariant[where P=scan_inv, OF a]) (rule partial_step_inv)
  then show "scan_inv ((case x of (canonical, aliases) \<Rightarrow> \<lambda>best.
       fold (\<lambda>alias. partial_step (split text) canonical alias) aliases best) a)"
    by (simp add: x)
qed

lemma res_inv_dresult_None: "res_inv (dresult None 0 m ot ct)"
  by (simp add: res_inv_def dresult_def)

lemma res_inv_dresult_Some: "0 < c \<Longrightarrow> res_inv (dresult (Some s) c m ot ct)"
  by (simp add: res_inv_def dresult_def)

lemma res_inv_hresult_None: "res_inv (hresult None 0 m ot ct)"
  by (simp add: res_inv_def hresult_def)

lemma res_inv_hresult_Some: "0 < c \<Longrightarrow> res_inv (hresult (Some s) c m ot ct)"
  by (simp add: res_inv_def hresult_def)

lemma scan_inv_site: "scan_inv best \<Longrightarrow> 0 < fst best \<Longrightarrow> \<exists>s. snd best = Some s"
  by (cases "snd best") (simp_all add: scan_inv_def)

lemma keep_best_inv: "res_inv a \<Longrightarrow> res_inv b \<Longrightarrow> res_inv (keep_best a b)"
  by (simp add: keep_best_def)

lemma D_exact_inv: "res_inv (DeterministicResolver_exact_match sites text)"
  by (simp add: DeterministicResolver_exact_match_def res_inv_dresult_None res_inv_dresult_Some
           split: option.split)

lemma D_fuzzy_inv: "res_inv (DeterministicResolver_fuzzy_match extractOne sites text)"
  by (simp add: DeterministicResolver_fuzzy_match_def Let_def res_inv_dresult_None
                res_inv_dresult_Some split: option.split)

lemma D_phonetic_inv: "res_inv (DeterministicResolver_phonetic_match dm sites text)"
proof (cases "fst (phonetic_scan dm sites text) \<ge> 0.8")
  case True
  then have "0 < fst (phonetic_scan dm sites text)" by linarith
  then obtain s where "snd (phonetic_scan dm sites text) = Some s"
    using scan_inv_site[OF phonetic_scan_inv] by blast
  then show ?thesis
    using True \<open>0 < fst (phonetic_scan dm sites text)\<close>
    by (simp add: DeterministicResolver_phonetic_match_def Let_def res_inv_dresult_Some)
next
  case False
  then show ?thesis
    by (simp add: DeterministicResolver_phonetic_match_def Let_def res_inv_dresult_None)
qed

lemma D_partial_inv: "res_inv (DeterministicResolver_partial_match sites text)"
proof (cases "fst (partial_scan sites text) \<ge> 0.6")
  case True
  then have "0 < fst (partial_scan sites text)" by linarith
  then obtain s where "snd (partial_scan sites text) = Some s"
    using scan_inv_site[OF partial_scan_inv] by blast
  then show ?thesis
    using True \<open>0 < fst (partial_scan sites text)\<close>
    by (simp add: DeterministicResolver_partial_match_def Let_def res_inv_dresult_Some)
next
  case False
  then show ?thesis
    by (simp add: DeterministicResolver_partial_match_def Let_def res_inv_dresult_None)
qed

lemma H_exact_inv: "res_inv (HeuristicResolver_exact_match sites text)"
  by (simp add: HeuristicResolver_exact_match_def res_inv_hresult_None res_inv_hresult_Some
           split: option.split)

lemma H_fuzzy_inv: "res_inv (HeuristicResolver_fuzzy_match extractOne sites text)"
  by (simp add: HeuristicResolver_fuzzy_match_def Let_def res_inv_hresult_None
                res_inv_hresult_Some split: option.split)

lemma H_phonetic_inv: "res_inv (HeuristicResolver_phonetic_match dm sites text)"
proof (cases "fst (phonetic_scan dm sites text) \<ge> 0.8")
  case True
  then have "0 < fst (phonetic_scan dm sites text)" by linarith
  then obtain s where "snd (phonetic_scan dm sites text) = Some s"
    using scan_inv_site[OF phonetic_scan_inv] by blast
  then show ?thesis
    using True \<open>0 < fst (phonetic_scan dm sites text)\<close>
    by (simp add: HeuristicResolver_phonetic_match_def Let_def res_inv_hresult_Some)
next
  case False
  then show ?thesis
    by (simp add: HeuristicResolver_phonetic_match_def Let_def res_inv_hresult_None)
qed

lemma H_partial_inv: "res_inv (HeuristicResolver_partial_match sites text)"
proof (cases "fst (partial_scan sites text) \<ge> 0.6")
  case True
  then have "0 < fst (partial_scan sites text)" by linarith
  then obtain s where "snd (partial_scan sites text) = Some s"
    using scan_inv_site[OF partial_scan_inv] by blast
  then show ?thesis
    using True \<open>0 < fst (partial_scan sites text)\<close>
    by (simp add: HeuristicResolver_partial_match_def Let_def res_inv_hresult_Some)
next
  case False
  then show ?thesis
    by (simp add: HeuristicResolver_partial_match_def Let_def res_inv_hresult_None)
qed

lemma D_best_inv:
  "res_inv (fold (\<lambda>strategy. keep_best (strategy cleaned))
       [DeterministicResolver_exact_match sites,
        DeterministicResolver_fuzzy_match extractOne sites,
        DeterministicResolver_phonetic_match dm sites,
        DeterministicResolver_partial_match sites]
       (dresult None 0.0 ''deterministic'' text cleaned))"
  by (simp add: keep_best_inv D_exact_inv D_fuzzy_inv D_phonetic_inv D_partial_inv
        res_inv_dresult_None)

lemma H_resolve_inv: "res_inv (HeuristicResolver_resolve_site extractOne dm sites text)"
  by (simp add: HeuristicResolver_resolve_site_def Let_def keep_best_inv H_exact_inv H_fuzzy_inv
        H_phonetic_inv H_partial_inv res_inv_hresult_None)

lemma LLM_resolve_inv: "res_inv (LLMResolver_resolve_site llm text)"
  by (simp add: LLMResolver_resolve_site_def Let_def LLMResolver_call_llm_def
        LLMResolver_parse_llm_response_def get_site_def get_confidence_def res_inv_hresult_None)

lemma res_inv_needs_confirmation:
  "res_inv (r\<lparr>needs_confirmation := b\<rparr>) = res_inv (r :: DResolutionResult)"
  by (simp add: res_inv_def)

lemma D_resolve_site_unfold:
  "text \<noteq> [] \<Longrightarrow>
   \<exists>b. res_inv b
     \<and> DeterministicResolver_resolve_site extractOne dm sites text
       = (if confidence b \<ge> accept_threshold then b\<lparr>needs_confirmation := False\<rparr>
          else if confidence b \<ge> confirmation_threshold then b\<lparr>needs_confirmation := True\<rparr>
          else b\<lparr>needs_confirmation := False\<rparr>)"
proof -
  assume ne: "text \<noteq> []"
  define b where "b = fold (\<lambda>strategy. keep_best (strategy (DeterministicResolver_normalize_text text)))
       [DeterministicResolver_exact_match sites,
        DeterministicResolver_fuzzy_match extractOne sites,
        DeterministicResolver_phonetic_match dm sites,
        DeterministicResolver_partial_match sites]
       (dresult None 0.0 ''deterministic'' text (DeterministicResolver_normalize_text text))"
  have "res_inv b" unfolding b_def by (rule D_best_inv)
  moreover have "DeterministicResolver_resolve_site extractOne dm sites text
       = (if confidence b \<ge> accept_threshold then b\<lparr>needs_confirmation := False\<rparr>
          else if confidence b \<ge> confirmation_threshold then b\<lparr>needs_confirmation := True\<rparr>
          else b\<lparr>needs_confirmation := False\<rparr>)"
    unfolding b_def DeterministicResolver_resolve_site_def Let_def using ne by (simp only: if_False)
  ultimately show ?thesis by blast
qed

section \<open>Resolver examples\<close>

text \<open>
  Three runs of the deterministic resolver with the reference collaborators: an exact
  alias, a typo that only the fuzzy scorer catches, and two initials that only the
  partial strategy matches.
\<close>

lemma resolve_google_mail:
  "DeterministicResolver_resolve_site extractOne_ratio metaphone_table
     [(''gmail'', [''gmail'', ''google mail''])] ''Google  Mail''
   = \<lparr>site = Some ''gmail'', confidence = 1, method_name = ''exact_match'',
      original_text = ''google mail'', cleaned_text = ''google mail'',
      needs_confirmation = False\<rparr>"
  by code_simp

lemma resolve_gmaik:
  "DeterministicResolver_resolve_site extractOne_ratio metaphone_table
     [(''gmail'', [''gmail'', ''google mail''])] ''gmaik''
   = \<lparr>site = Some ''gmail'', confidence = 4 / 5, method_name = ''fuzzy_match'',
      original_text = ''gmaik'', cleaned_text = ''gmaik'', needs_confirmation = True\<rparr>"
  by code_simp

lemma resolve_b_a:
  "DeterministicResolver_resolve_site extractOne_ratio metaphone_table
     [(''bank'', [''bank of america''])] ''b a''
   = \<lparr>site = Some ''bank'', confidence = 2 / 3, method_name = ''partial_match'',
      original_text = ''b a'', cleaned_text = ''b a'', needs_confirmation = False\<rparr>"
  by code_simp

section \<open>C1: the threshold policy of the deterministic resolver\<close>

text \<open>
  Claim C1 says that the result of \<open>resolve_site\<close> has \<open>needs_confirmation\<close> false when
  its confidence is at least 0.88, true when it is in \<open>[0.75, 0.88)\<close>, and that its site
  is None when the confidence is below 0.75. The first two parts hold. The third does
  not: the last branch only sets \<open>needs_confirmation\<close> to False and leaves the site of
  the best strategy in place. For the text \<open>b a\<close> and the alias \<open>bank of america\<close> the
  partial strategy scores 2/3 and the result carries the site \<open>bank\<close>.
\<close>

theorem low_confidence_keeps_site:
  "confidence (DeterministicResolver_resolve_site extractOne_ratio metaphone_table
                 [(''bank'', [''bank of america''])] ''b a'') < 0.75
   \<and> site (DeterministicResolver_resolve_site extractOne_ratio metaphone_table
             [(''bank'', [''bank of america''])] ''b a'') \<noteq> None"
  by (simp add: resolve_b_a)

text \<open>
  C1 as amended: for every text, catalog and pair of libraries, the result has
  \<open>needs_confirmation\<close> false at confidence 0.88 or more, true in \<open>[0.75, 0.88)\<close>, and
  false below 0.75; its site is None exactly when its confidence is 0, that is when no
  strategy matched.
\<close>

theorem threshold_policy:
  "(confidence (DeterministicResolver_resolve_site extractOne dm sites text) \<ge> 0.88
      \<longrightarrow> \<not> needs_confirmation (DeterministicResolver_resolve_site extractOne dm sites text))
   \<and> (0.75 \<le> confidence (DeterministicResolver_resolve_site extractOne dm sites text)
      \<and> confidence (DeterministicResolver_resolve_site extractOne dm sites text) < 0.88
      \<longrightarrow> needs_confirmation (DeterministicResolver_resolve_site extractOne dm sites text))
   \<and> (confidence (DeterministicResolver_resolve_site extractOne dm sites text) < 0.75
      \<longrightarrow> \<not> needs_confirmation (DeterministicResolver_resolve_site extractOne dm sites text))
   \<and> (site (DeterministicResolver_resolve_site extractOne dm sites text) = None
      \<longleftrightarrow> confidence (DeterministicResolver_resolve_site extractOne dm sites text) = 0)"
proof (cases "text = []")
  case True
  then show ?thesis
    by (simp add: DeterministicResolver_resolve_site_def dresult_def)
next
  case False
  from D_resolve_site_unfold[OF False, of extractOne dm sites]
  obtain b where inv: "res_inv b"
    and eq: "DeterministicResolver_resolve_site extractOne dm sites text
       = (if confidence b \<ge> accept_threshold then b\<lparr>needs_confirmation := False\<rparr>
          else if confidence b \<ge> confirmation_threshold then b\<lparr>needs_confirmation := True\<rparr>
          else b\<lparr>needs_confirmation := False\<rparr>)"
    by blast
  show ?thesis
    unfolding eq using inv
    by (simp add: res_inv_def accept_threshold_def confirmation_threshold_def)
qed

theorem threshold_policy_witness:
  "\<not> needs_confirmation (DeterministicResolver_resolve_site extractOne_ratio metaphone_table
        [(''gmail'', [''gmail'', ''google mail''])] ''Google  Mail'')
   \<and> needs_confirmation (DeterministicResolver_resolve_site extractOne_ratio metaphone_table
        [(''gmail'', [''gmail'', ''google mail''])] ''gmaik'')
   \<and> \<not> needs_confirmation (DeterministicResolver_resolve_site extractOne_ratio metaphone_table
        [(''bank'', [''bank of america''])] ''b a'')
   \<and> site (DeterministicResolver_resolve_site extractOne_ratio metaphone_table
        [(''bank'', [''bank of america''])] ''b a'') \<noteq> None"
proof -
  have high: "confidence (DeterministicResolver_resolve_site extractOne_ratio metaphone_table
        [(''gmail'', [''gmail'', ''google mail''])] ''Google  Mail'') \<ge> 0.88"
    by (simp add: resolve_google_mail)
  have mid: "0.75 \<le> confidence (DeterministicResolver_resolve_site extractOne_ratio
        metaphone_table [(''gmail'', [''gmail'', ''google mail''])] ''gmaik'')
      \<and> confidence (DeterministicResolver_resolve_site extractOne_ratio
        metaphone_table [(''gmail'', [''gmail'', ''google mail''])] ''gmaik'') < 0.88"
    by (simp add: resolve_gmaik)
  have low: "confidence (DeterministicResolver_resolve_site extractOne_ratio metaphone_table
        [(''bank'', [''bank of america''])] ''b a'') < 0.75"
    by (simp add: resolve_b_a)
  have nonzero: "confidence (DeterministicResolver_resolve_site extractOne_ratio metaphone_table
        [(''bank'', [''bank of america''])] ''b a'') \<noteq> 0"
    by (simp add: resolve_b_a)
  show ?thesis
    using high mid low nonzero
      threshold_policy[of extractOne_ratio metaphone_table
        "[(''gmail'', [''gmail'', ''google mail''])]" "''Google  Mail''"]
      threshold_policy[of extractOne_ratio metaphone_table
        "[(''gmail'', [''gmail'', ''google mail''])]" "''gmaik''"]
      threshold_policy[of extractOne_ratio metaphone_table
        "[(''bank'', [''bank of america''])]" "''b a''"]
    by blast
qed

section \<open>Examples of the resolver with LLM fallback\<close>

lemma res_inv_None: "res_inv r \<Longrightarrow> site r = None \<Longrightarrow> confidence r = 0"
  by (simp add: res_inv_def)

lemma resolve_site_name_inv:
  assumes "res_inv (h t)" and "res_inv (l t)"
  shows "res_inv (fst (resolve_site_name h l t))"
  using assms by (simp add: resolve_site_name_def Let_def)

lemma intent_zzz:
  "IntentResolver_resolve_site_name extractOne_ratio metaphone_table
     [(''bank'', [''bank of america''])] \<lparr>model_path = ''/models/llm/'', is_available = True\<rparr> ''zzz''
   = (\<lparr>site = None, confidence = 0, method_name = ''heuristic'',
       original_text = ''zzz'', cleaned_text = ''zzz''\<rparr>, [''zzz''])"
  by code_simp

lemma heuristic_b_a:
  "HeuristicResolver_resolve_site extractOne_ratio metaphone_table
     [(''bank'', [''bank of america''])] ''b a''
   = \<lparr>site = Some ''bank'', confidence = 2 / 3, method_name = ''heuristic'',
      original_text = ''b a'', cleaned_text = ''b a''\<rparr>"
  by code_simp

lemma heuristic_zzz:
  "HeuristicResolver_resolve_site extractOne_ratio metaphone_table
     [(''bank'', [''bank of america''])] ''zzz''
   = \<lparr>site = None, confidence = 0, method_name = ''heuristic'',
      original_text = ''zzz'', cleaned_text = ''zzz''\<rparr>"
  by code_simp

lemma intent_b_a:
  "IntentResolver_resolve_site_name extractOne_ratio metaphone_table
     [(''bank'', [''bank of america''])] \<lparr>model_path = ''/models/llm/'', is_available = True\<rparr> ''b a''
   = (\<lparr>site = Some ''bank'', confidence = 2 / 3, method_name = ''heuristic'',
       original_text = ''b a'', cleaned_text = ''b a''\<rparr>, [])"
  by code_simp

section \<open>C4: a result without a site has confidence 0\<close>

text \<open>
  Claim C4: every \<open>ResolutionResult\<close> that a resolution path of resolve.py produces
  (each of the four heuristic strategies, \<open>HeuristicResolver.resolve_site\<close>,
  \<open>LLMResolver.resolve_site\<close> and \<open>IntentResolver._resolve_site_name\<close>) has confidence 0
  when its site is None. The strategies return a site with every positive score, the
  loop over them replaces the initial no-match only by a strictly better result, and
  the LLM path answers with the placeholder's \<open>{"site": null, "confidence": 0.0}\<close>.
\<close>

theorem site_none_confidence_zero:
  "(site (fst (IntentResolver_resolve_site_name extractOne dm sites llm text)) = None
      \<longrightarrow> confidence (fst (IntentResolver_resolve_site_name extractOne dm sites llm text)) = 0)
   \<and> (site (HeuristicResolver_resolve_site extractOne dm sites text) = None
      \<longrightarrow> confidence (HeuristicResolver_resolve_site extractOne dm sites text) = 0)
   \<and> (site (LLMResolver_resolve_site llm text) = None
      \<longrightarrow> confidence (LLMResolver_resolve_site llm text) = 0)
   \<and> (site (HeuristicResolver_exact_match sites text) = None
      \<longrightarrow> confidence (HeuristicResolver_exact_match sites text) = 0)
   \<and> (site (HeuristicResolver_fuzzy_match extractOne sites text) = None
      \<longrightarrow> confidence (HeuristicResolver_fuzzy_match extractOne sites text) = 0)
   \<and> (site (HeuristicResolver_phonetic_match dm sites text) = None
      \<longrightarrow> confidence (HeuristicResolver_phonetic_match dm sites text) = 0)
   \<and> (site (HeuristicResolver_partial_match sites text) = None
      \<longrightarrow> confidence (HeuristicResolver_partial_match sites text) = 0)"
proof -
  have "res_inv (fst (IntentResolver_resolve_site_name extractOne dm sites llm text))"
    unfolding IntentResolver_resolve_site_name_def
    by (rule resolve_site_name_inv[OF H_resolve_inv LLM_resolve_inv])
  then show ?thesis
    using H_resolve_inv[of extractOne dm sites "text"] LLM_resolve_inv[of llm "text"]
      H_exact_inv[of sites "text"] H_fuzzy_inv[of extractOne sites "text"]
      H_phonetic_inv[of dm sites "text"] H_partial_inv[of sites "text"]
    by (simp add: res_inv_def)
qed

theorem site_none_confidence_zero_witness:
  "site (fst (IntentResolver_resolve_site_name extractOne_ratio metaphone_table
     [(''bank'', [''bank of america''])] \<lparr>model_path = ''/models/llm/'', is_available = True\<rparr> ''zzz'')) = None
   \<and> confidence (fst (IntentResolver_resolve_site_name extractOne_ratio metaphone_table
     [(''bank'', [''bank of america''])] \<lparr>model_path = ''/models/llm/'', is_available = True\<rparr> ''zzz'')) = 0"
proof -
  have "site (fst (IntentResolver_resolve_site_name extractOne_ratio metaphone_table
     [(''bank'', [''bank of america''])] \<lparr>model_path = ''/models/llm/'', is_available = True\<rparr> ''zzz'')) = None"
    by (simp add: intent_zzz)
  then show ?thesis
    using site_none_confidence_zero[of extractOne_ratio metaphone_table
      "[(''bank'', [''bank of america''])]"
      "\<lparr>model_path = ''/models/llm/'', is_available = True\<rparr>" "''zzz''"]
    by blast
qed

section \<open>C8: when the LLM resolver is called\<close>

text \<open>
  Claim C8 says that the LLM is called whenever the best heuristic confidence is below
  0.82 and never at 0.82 or above. \<open>_resolve_site_name\<close> returns the heuristic result at
  0.82 or above, but it calls the LLM resolver only below 0.65: for the text \<open>b a\<close> the
  heuristic confidence is 2/3, the LLM resolver is available, and it is not called.
\<close>

theorem no_escalation_below_llm_threshold:
  "confidence (HeuristicResolver_resolve_site extractOne_ratio metaphone_table
        [(''bank'', [''bank of america''])] ''b a'') < 0.82
   \<and> is_available \<lparr>model_path = ''/models/llm/'', is_available = True\<rparr>
   \<and> snd (IntentResolver_resolve_site_name extractOne_ratio metaphone_table
        [(''bank'', [''bank of america''])]
        \<lparr>model_path = ''/models/llm/'', is_available = True\<rparr> ''b a'') = []"
  by (simp add: heuristic_b_a intent_b_a)

text \<open>
  C8 as amended: below a heuristic confidence of 0.65 the LLM resolver is called, once,
  with the text, and its result replaces the heuristic one if and only if its confidence
  is strictly greater; at 0.65 or above (so also at 0.82 or above) the LLM resolver is
  not called and the heuristic result is returned.
\<close>

theorem escalation_gate:
  "(confidence (heuristic text) < 0.65 \<longrightarrow>
      snd (resolve_site_name heuristic llm text) = [text]
      \<and> fst (resolve_site_name heuristic llm text)
          = (if confidence (llm text) > confidence (heuristic text) then llm text
             else heuristic text))
   \<and> (confidence (heuristic text) \<ge> 0.65 \<longrightarrow>
      snd (resolve_site_name heuristic llm text) = []
      \<and> fst (resolve_site_name heuristic llm text) = heuristic text)"
  by (simp add: resolve_site_name_def Let_def)

theorem escalation_gate_witness:
  "snd (resolve_site_name
          (HeuristicResolver_resolve_site extractOne_ratio metaphone_table
             [(''bank'', [''bank of america''])])
          (LLMResolver_resolve_site \<lparr>model_path = ''/models/llm/'', is_available = True\<rparr>)
          ''zzz'') = [''zzz'']
   \<and> snd (resolve_site_name
          (HeuristicResolver_resolve_site extractOne_ratio metaphone_table
             [(''bank'', [''bank of america''])])
          (LLMResolver_resolve_site \<lparr>model_path = ''/models/llm/'', is_available = True\<rparr>)
          ''b a'') = []"
proof -
  have low: "confidence (HeuristicResolver_resolve_site extractOne_ratio metaphone_table
             [(''bank'', [''bank of america''])] ''zzz'') < 0.65"
    by (simp add: heuristic_zzz)
  have high: "confidence (HeuristicResolver_resolve_site extractOne_ratio metaphone_table
             [(''bank'', [''bank of america''])] ''b a'') \<ge> 0.65"
    by (simp add: heuristic_b_a)
  show ?thesis
    using low high
      escalation_gate[of "HeuristicResolver_resolve_site extractOne_ratio metaphone_table
             [(''bank'', [''bank of america''])]" "''zzz''"
          "LLMResolver_resolve_site \<lparr>model_path = ''/models/llm/'', is_available = True\<rparr>"]
      escalation_gate[of "HeuristicResolver_resolve_site extractOne_ratio metaphone_table
             [(''bank'', [''bank of america''])]" "''b a''"
          "LLMResolver_resolve_site \<lparr>model_path = ''/models/llm/'', is_available = True\<rparr>"]
    by blast
qed

section \<open>C7: the exact-match law\<close>

lemma keep_best_le: "confidence r \<le> confidence b \<Longrightarrow> keep_best r b = b"
  by (simp add: keep_best_def)

lemma keep_best_gt: "confidence r > confidence b \<Longrightarrow> keep_best r b = r"
  by (simp add: keep_best_def)

lemma find_Some_holds: "find P xs = Some x \<Longrightarrow> x \<in> set xs \<and> P x"
  by (induction xs) (auto split: if_splits)

lemma find_canonical_unique:
  assumes "(c, aliases) \<in> set sites" and "a \<in> set aliases"
    and "\<forall>(c', as') \<in> set sites. a \<in> set as' \<longrightarrow> c' = c"
  shows "find_canonical sites a = Some c"
proof (cases "find (\<lambda>(canonical, aliases). a \<in> set aliases) sites")
  case None
  then show ?thesis using assms(1,2) by (auto simp: find_None_iff)
next
  case (Some x)
  then have "x \<in> set sites" and "(\<lambda>(canonical, aliases). a \<in> set aliases) x"
    using find_Some_holds[OF Some] by simp_all
  then have "fst x = c" using assms(3) by (cases x) auto
  then show ?thesis using Some by (simp add: find_canonical_def)
qed

lemma exact_match_registered:
  assumes "(c, aliases) \<in> set sites" and "a \<in> set aliases"
    and "\<forall>(c', as') \<in> set sites. a \<in> set as' \<longrightarrow> c' = c"
  shows "DeterministicResolver_exact_match sites a = dresult (Some c) 1 ''exact_match'' a a"
proof -
  have "a \<in> set (get_all_aliases sites)"
    using assms(1,2) by (force simp: get_all_aliases_def)
  then show ?thesis
    using find_canonical_unique[OF assms] by (simp add: DeterministicResolver_exact_match_def)
qed

lemma D_fuzzy_le_1:
  assumes "\<forall>t cs x s. extractOne t cs = Some (x, s) \<longrightarrow> s \<le> 100"
  shows "confidence (DeterministicResolver_fuzzy_match extractOne sites t) \<le> 1"
proof (cases "extractOne t (get_all_aliases sites)")
  case None
  then show ?thesis
    by (simp add: DeterministicResolver_fuzzy_match_def Let_def dresult_def)
next
  case (Some m)
  then have "snd m \<le> 100" using assms by (cases m) auto
  then show ?thesis using Some
    by (simp add: DeterministicResolver_fuzzy_match_def Let_def dresult_def split: option.split)
qed

lemma D_phonetic_le_1: "confidence (DeterministicResolver_phonetic_match dm sites t) \<le> 1"
  using phonetic_scan_inv[of dm sites t]
  by (simp add: DeterministicResolver_phonetic_match_def Let_def dresult_def scan_inv_def)

lemma D_partial_le_1: "confidence (DeterministicResolver_partial_match sites t) \<le> 1"
  using partial_scan_inv[of sites t]
  by (simp add: DeterministicResolver_partial_match_def Let_def dresult_def scan_inv_def)

lemma lcs_length_le: "lcs_length a b \<le> length a \<and> lcs_length a b \<le> length b"
  by (induction a b rule: lcs_length.induct) auto

lemma fuzz_ratio_le_100: "fuzz_ratio a b \<le> 100"
proof (cases "a = [] \<and> b = []")
  case True
  then show ?thesis by (simp add: fuzz_ratio_def)
next
  case False
  then have pos: "0 < length a + length b" by auto
  have "2 * lcs_length a b \<le> length a + length b"
    using lcs_length_le[of a b] by linarith
  then have "(of_nat (2 * lcs_length a b) :: rat) \<le> of_nat (length a + length b)"
    by (simp only: of_nat_le_iff)
  moreover have "(0::rat) < of_nat (length a + length b)"
    using pos by (simp only: of_nat_0_less_iff)
  ultimately have "(of_nat (2 * lcs_length a b) :: rat) / of_nat (length a + length b) \<le> 1"
    by (simp only: divide_le_eq_1_pos)
  then have "100 * ((of_nat (2 * lcs_length a b) :: rat) / of_nat (length a + length b)) \<le> 100 * 1"
    by (rule mult_left_mono) simp
  then show ?thesis using False by (simp add: fuzz_ratio_def)
qed

lemma extractOne_ratio_le_100: "extractOne_ratio t cs = Some (x, s) \<Longrightarrow> s \<le> 100"
proof (induction cs arbitrary: x s)
  case Nil
  then show ?case by simp
next
  case (Cons choice cs)
  show ?case
  proof (cases "extractOne_ratio t cs")
    case None
    then show ?thesis using Cons.prems fuzz_ratio_le_100[of t choice] by auto
  next
    case (Some m)
    obtain c' s' where m: "m = (c', s')" by (cases m)
    have "s' \<le> 100" using Cons.IH Some m by blast
    then show ?thesis
      using Cons.prems Some m fuzz_ratio_le_100[of t choice] by (auto split: if_splits)
  qed
qed

lemma resolve_Gmail:
  "DeterministicResolver_resolve_site extractOne_ratio metaphone_table
     [(''gmail'', [''Gmail''])] ''Gmail''
   = \<lparr>site = Some ''gmail'', confidence = 9 / 10, method_name = ''phonetic_match'',
      original_text = ''gmail'', cleaned_text = ''gmail'', needs_confirmation = False\<rparr>"
  by code_simp

lemma normalize_google_mail: "DeterministicResolver_normalize_text ''google mail'' = ''google mail''"
  by code_simp

text \<open>
  Claim C7: resolving an alias \<open>a\<close> registered under \<open>c\<close>, and under no other name,
  gives the site \<open>c\<close> with confidence 1. \<open>resolve_site\<close> normalises the text before the
  exact lookup and compares the result with the aliases as they are stored, so an alias
  that the normaliser changes is never found by the exact strategy: the alias \<open>Gmail\<close> of
  \<open>gmail\<close> is looked up as \<open>gmail\<close> and resolves by its phonetic code, with confidence 0.9.
  (An empty alias resolves to no site at all.)
\<close>

theorem alias_not_in_normal_form:
  "(''gmail'', [''Gmail'']) \<in> set [(''gmail'', [''Gmail''])] \<and> ''Gmail'' \<in> set [''Gmail'']
   \<and> confidence (DeterministicResolver_resolve_site extractOne_ratio metaphone_table
        [(''gmail'', [''Gmail''])] ''Gmail'') \<noteq> 1"
  by (simp add: resolve_Gmail)

text \<open>
  C7 as amended: for every alias \<open>a\<close> that is not empty and that the normaliser leaves
  unchanged, registered under \<open>c\<close> and under no other name, resolving \<open>a\<close> gives the site
  \<open>c\<close> with confidence 1 and without confirmation, whatever the phonetic library, and for
  every fuzzy scorer whose scores are at most 100.
\<close>

theorem exact_match_law:
  assumes "a \<noteq> []"
    and "DeterministicResolver_normalize_text a = a"
    and "(c, aliases) \<in> set sites" and "a \<in> set aliases"
    and "\<forall>(c', as') \<in> set sites. a \<in> set as' \<longrightarrow> c' = c"
    and "\<forall>t cs x s. extractOne t cs = Some (x, s) \<longrightarrow> s \<le> 100"
  shows "site (DeterministicResolver_resolve_site extractOne dm sites a) = Some c
     \<and> confidence (DeterministicResolver_resolve_site extractOne dm sites a) = 1
     \<and> \<not> needs_confirmation (DeterministicResolver_resolve_site extractOne dm sites a)"
proof -
  let ?e = "dresult (Some c) 1 ''exact_match'' a a"
  have ce: "confidence ?e = 1" by (simp add: dresult_def)
  have e: "DeterministicResolver_exact_match sites a = ?e"
    by (rule exact_match_registered[OF assms(3,4,5)])
  have k1: "keep_best (DeterministicResolver_exact_match sites a)
              (dresult None 0.0 ''deterministic'' a a) = ?e"
    unfolding e by (rule keep_best_gt) (simp add: dresult_def)
  have k2: "keep_best (DeterministicResolver_fuzzy_match extractOne sites a) ?e = ?e"
    by (rule keep_best_le) (simp only: ce D_fuzzy_le_1[OF assms(6)])
  have k3: "keep_best (DeterministicResolver_phonetic_match dm sites a) ?e = ?e"
    by (rule keep_best_le) (simp only: ce D_phonetic_le_1)
  have k4: "keep_best (DeterministicResolver_partial_match sites a) ?e = ?e"
    by (rule keep_best_le) (simp only: ce D_partial_le_1)
  have "DeterministicResolver_resolve_site extractOne dm sites a
          = ?e\<lparr>needs_confirmation := False\<rparr>"
    unfolding DeterministicResolver_resolve_site_def Let_def assms(2) fold_simps o_apply
      id_apply k1 k2 k3 k4
    using assms(1) by (simp add: ce accept_threshold_def)
  then show ?thesis by (simp add: dresult_def)
qed

theorem exact_match_law_witness:
  "site (DeterministicResolver_resolve_site extractOne_ratio metaphone_table
       [(''gmail'', [''gmail'', ''google mail'']), (''google'', [''google'', ''googol''])]
       ''google mail'') = Some ''gmail''
   \<and> confidence (DeterministicResolver_resolve_site extractOne_ratio metaphone_table
       [(''gmail'', [''gmail'', ''google mail'']), (''google'', [''google'', ''googol''])]
       ''google mail'') = 1
   \<and> \<not> needs_confirmation (DeterministicResolver_resolve_site extractOne_ratio metaphone_table
       [(''gmail'', [''gmail'', ''google mail'']), (''google'', [''google'', ''googol''])]
       ''google mail'')"
proof -
  have h1: "''google mail'' \<noteq> []" by simp
  have h3: "(''gmail'', [''gmail'', ''google mail''])
      \<in> set [(''gmail'', [''gmail'', ''google mail'']), (''google'', [''google'', ''googol''])]"
    by simp
  have h4: "''google mail'' \<in> set [''gmail'', ''google mail'']" by simp
  have h5: "\<forall>(c', as') \<in> set [(''gmail'', [''gmail'', ''google mail'']),
                (''google'', [''google'', ''googol''])].
             ''google mail'' \<in> set as' \<longrightarrow> c' = ''gmail''"
    by simp
  have h6: "\<forall>t cs x s. extractOne_ratio t cs = Some (x, s) \<longrightarrow> s \<le> 100"
    using extractOne_ratio_le_100 by blast
  show ?thesis
    by (rule exact_match_law[OF h1 normalize_google_mail h3 h4 h5 h6])
qed

section \<open>The key statement\<close>

text \<open>
  Both \<open>initialize_vault\<close> and \<open>unlock_vault\<close> run the key statement right after opening
  the connection, inside their \<open>try\<close>; it raises, and the \<open>except\<close> returns False. What
  is left is the opened connection in the object (and the hash that \<open>initialize_vault\<close>
  assigned before), and an empty file where there was none.
\<close>

lemma connect_fst: "fst (sqlite3_connect path fs) = \<lparr>conn_path = path, conn_key = None\<rparr>"
  by (simp add: sqlite3_connect_def)

lemma unlock_vault_raises:
  "unlock_vault h now p v fs
   = (False, v\<lparr>connection := Some \<lparr>conn_path = db_path v, conn_key = None\<rparr>\<rparr>,
      snd (sqlite3_connect (db_path v) fs))"
  by (simp add: unlock_vault_def pragma_key_def sqlite3_connect_def)

lemma initialize_vault_raises:
  "initialize_vault h now p v fs
   = (False,
      v\<lparr>master_key := Some (hash h p),
        connection := Some \<lparr>conn_path = db_path v, conn_key = None\<rparr>\<rparr>,
      snd (sqlite3_connect (db_path v) fs))"
  by (simp add: initialize_vault_def pragma_key_def sqlite3_connect_def Let_def)

section \<open>C2: operations on a locked vault\<close>

lemma retrieve_locked_run:
  "retrieve_password 10 ''gmail'' (lock_vault unlocked_ref) files_ref
   = (None, lock_vault unlocked_ref, files_ref)"
  by (simp add: retrieve_password_def enter_def lock_vault_def)

lemma retrieve_missing_run:
  "fst (retrieve_password 10 ''nowhere'' unlocked_ref files_ref) = None"
  by (simp add: retrieve_password_def enter_def check_auto_lock_def unlocked_ref_def
        vault_ref_def VaultDatabase_init_def read_tables_def read_db_def files_ref_def
        store_ref_def gmail_entry_def)

text \<open>
  Claim C2 says that an operation on a vault that is not unlocked fails with a
  vault-locked condition. Each operation returns a value and changes nothing, but the
  value is the plain failure value of the operation (False, None or the empty list),
  the one it also returns when nothing is found or a statement raises: \<open>retrieve_password\<close>
  on the locked vault, for the site \<open>gmail\<close> that the store holds, returns None, and None
  is what it returns on the unlocked vault for a site that was never saved.
\<close>

theorem locked_is_reported_as_not_found:
  "\<not> is_unlocked (lock_vault unlocked_ref)
   \<and> find (\<lambda>r. entry_site r = ''gmail'') (vault_entries store_ref) = Some gmail_entry
   \<and> is_unlocked unlocked_ref
   \<and> find (\<lambda>r. entry_site r = ''nowhere'') (vault_entries store_ref) = None
   \<and> fst (retrieve_password 10 ''gmail'' (lock_vault unlocked_ref) files_ref)
       = fst (retrieve_password 10 ''nowhere'' unlocked_ref files_ref)"
  by (simp add: retrieve_locked_run retrieve_missing_run)
     (simp add: lock_vault_def unlocked_ref_def store_ref_def gmail_entry_def)

text \<open>
  C2 as amended: when the vault is not unlocked (as \<open>__init__\<close> leaves it, or after
  \<open>lock_vault\<close>), each of save, retrieve, list, delete, search, backup and passphrase
  change returns its failure value (False, None or the empty list), which is not
  particular to a locked vault, and leaves the vault object and every file as they
  were. Each operation returns a value: every statement that can raise is inside its
  \<open>try\<close>.
\<close>

theorem locked_vault_refuses:
  "(\<not> is_unlocked v \<longrightarrow>
      save_password now site_name password username memo v fs = (False, v, fs)
      \<and> retrieve_password now site_name v fs = (None, v, fs)
      \<and> list_entries now v fs = ([], v, fs)
      \<and> delete_entry now site_name v fs = (False, v, fs)
      \<and> search_entries now query v fs = ([], v, fs)
      \<and> backup_vault now backup_path v fs = (False, v, fs)
      \<and> change_master_passphrase h now old_passphrase new_passphrase v fs = (False, v, fs))
   \<and> \<not> is_unlocked (lock_vault v)
   \<and> \<not> is_unlocked (VaultDatabase_init now path)"
  by (simp add: save_password_def retrieve_password_def list_entries_def delete_entry_def
        search_entries_def backup_vault_def change_master_passphrase_def enter_def
        lock_vault_def VaultDatabase_init_def)

theorem locked_vault_refuses_witness:
  "save_password 9 ''gmail'' ''other'' None None (lock_vault vault_ref) files_ref
     = (False, lock_vault vault_ref, files_ref)
   \<and> retrieve_password 9 ''gmail'' (lock_vault vault_ref) files_ref
     = (None, lock_vault vault_ref, files_ref)
   \<and> delete_entry 9 ''gmail'' (lock_vault vault_ref) files_ref
     = (False, lock_vault vault_ref, files_ref)"
proof -
  have "\<not> is_unlocked (lock_vault vault_ref)"
    by (simp add: lock_vault_def)
  then show ?thesis
    using locked_vault_refuses[where v = "lock_vault vault_ref" and now = 9
        and site_name = "''gmail''" and password = "''other''" and username = None
        and memo = None and fs = files_ref]
    by blast
qed

section \<open>C3: unlocking with a wrong passphrase\<close>

lemma unlock_wrong_key_run:
  "unlock_vault argon2_ref 9 ''guess'' vault_ref files_ref
   = (False, vault_ref\<lparr>connection := Some \<lparr>conn_path = ''/db/vault.db'', conn_key = None\<rparr>\<rparr>,
      files_ref)"
  by (simp add: unlock_vault_raises)
     (simp add: sqlite3_connect_def files_ref_def vault_ref_def VaultDatabase_init_def)

text \<open>
  Claim C3 says that a failed \<open>unlock_vault\<close> changes nothing in the vault object or
  the store. It returns False and the vault stays locked, but the first statement of
  \<open>unlock_vault\<close> assigns the newly opened connection to \<open>self.connection\<close>, and no
  failure path takes it back: the object is not the one it was.
\<close>

theorem failed_unlock_keeps_connection:
  "\<not> is_unlocked vault_ref
   \<and> fst (unlock_vault argon2_ref 9 ''guess'' vault_ref files_ref) = False
   \<and> fst (snd (unlock_vault argon2_ref 9 ''guess'' vault_ref files_ref)) \<noteq> vault_ref"
proof -
  have "connection (vault_ref\<lparr>connection :=
           Some \<lparr>conn_path = ''/db/vault.db'', conn_key = None\<rparr>\<rparr>) \<noteq> connection vault_ref"
    by (simp add: vault_ref_def VaultDatabase_init_def)
  then have "vault_ref\<lparr>connection :=
           Some \<lparr>conn_path = ''/db/vault.db'', conn_key = None\<rparr>\<rparr> \<noteq> vault_ref"
    by metis
  then show ?thesis
    by (simp add: unlock_wrong_key_run) (simp add: vault_ref_def VaultDatabase_init_def)
qed

text \<open>
  C3 as amended: for a store that exists, and a passphrase that is not the key of the
  store or that the stored master hash does not verify, \<open>unlock_vault\<close> returns False;
  the lock flag, the master key, the time of last activity and the path of the vault are
  what they were, and so is every file.
\<close>

theorem unlock_wrong_passphrase:
  assumes "fs (db_path v) = Some (Database d)"
    and "db_key d \<noteq> Some p
         \<or> (has_tables d \<and> (\<exists>sh. vault_metadata d ''master_hash'' = Some (Text sh)
                \<and> sh \<noteq> [] \<and> verify h sh p \<noteq> Verified))"
  shows "fst (unlock_vault h now p v fs) = False
     \<and> is_unlocked (fst (snd (unlock_vault h now p v fs))) = is_unlocked v
     \<and> master_key (fst (snd (unlock_vault h now p v fs))) = master_key v
     \<and> last_activity (fst (snd (unlock_vault h now p v fs))) = last_activity v
     \<and> db_path (fst (snd (unlock_vault h now p v fs))) = db_path v
     \<and> snd (snd (unlock_vault h now p v fs)) = fs"
  using assms(1) by (simp add: unlock_vault_raises sqlite3_connect_def)

theorem unlock_wrong_passphrase_witness:
  "fst (unlock_vault argon2_ref 9 ''guess'' vault_ref files_ref) = False
   \<and> \<not> is_unlocked (fst (snd (unlock_vault argon2_ref 9 ''guess'' vault_ref files_ref)))
   \<and> master_key (fst (snd (unlock_vault argon2_ref 9 ''guess'' vault_ref files_ref))) = None
   \<and> snd (snd (unlock_vault argon2_ref 9 ''guess'' vault_ref files_ref)) = files_ref"
proof -
  have f: "files_ref (db_path vault_ref) = Some (Database store_ref)"
    by (simp add: files_ref_def vault_ref_def VaultDatabase_init_def)
  have k: "db_key store_ref \<noteq> Some ''guess''
         \<or> (has_tables store_ref \<and> (\<exists>sh. vault_metadata store_ref ''master_hash'' = Some (Text sh)
                \<and> sh \<noteq> [] \<and> verify argon2_ref sh ''guess'' \<noteq> Verified))"
    by (simp add: store_ref_def)
  have u: "\<not> is_unlocked vault_ref" "master_key vault_ref = None"
    by (simp_all add: vault_ref_def VaultDatabase_init_def)
  show ?thesis
    using unlock_wrong_passphrase[where fs = files_ref and v = vault_ref and d = store_ref
        and p = "''guess''" and h = argon2_ref and now = 9, OF f k] u
    by simp
qed

section \<open>C6: initialising the vault\<close>

text \<open>
  Claim C6 has \<open>initialize_vault\<close> succeed when no store exists at the path: the hash
  derived, an empty store opened, the hash persisted. \<open>initialize_vault\<close> derives the
  hash and opens the connection, and then the key statement raises: it returns False
  for every passphrase and whatever the path holds, a store or none. So it does fail
  where a store exists, and it fails as well where test\_vault.py expects it to succeed,
  on a file that holds no store. The lock flag and the time of last activity are what
  they were; the tables are never created and no hash is stored.
\<close>

theorem initialize_vault_fails:
  "fst (initialize_vault h now p v fs) = False
   \<and> is_unlocked (fst (snd (initialize_vault h now p v fs))) = is_unlocked v
   \<and> last_activity (fst (snd (initialize_vault h now p v fs))) = last_activity v
   \<and> master_key (fst (snd (initialize_vault h now p v fs))) = Some (hash h p)
   \<and> snd (snd (initialize_vault h now p v fs)) = snd (sqlite3_connect (db_path v) fs)"
  by (simp add: initialize_vault_raises)

text \<open>
  The run of test\_vault.py: a vault object on the empty file the test has created, and
  on no file at all.
\<close>

theorem initialize_vault_fails_witness:
  "fst (initialize_vault argon2_ref 1 ''test_passphrase_123''
          (VaultDatabase_init 0 ''/tmp/test.db'') [''/tmp/test.db'' \<mapsto> EmptyFile]) = False
   \<and> snd (snd (initialize_vault argon2_ref 1 ''test_passphrase_123''
          (VaultDatabase_init 0 ''/tmp/test.db'') [''/tmp/test.db'' \<mapsto> EmptyFile])) ''/tmp/test.db''
       = Some EmptyFile
   \<and> fst (initialize_vault argon2_ref 1 ''test_passphrase_123''
          (VaultDatabase_init 0 ''/tmp/test.db'') Map.empty) = False"
  using initialize_vault_fails[of argon2_ref 1 "''test_passphrase_123''"
      "VaultDatabase_init 0 ''/tmp/test.db''" "[''/tmp/test.db'' \<mapsto> EmptyFile]"]
    initialize_vault_fails[of argon2_ref 1 "''test_passphrase_123''"
      "VaultDatabase_init 0 ''/tmp/test.db''" Map.empty]
  by (simp add: sqlite3_connect_def VaultDatabase_init_def)

section \<open>C10: unlocking a store without a master hash\<close>

text \<open>
  Claim C10 has \<open>unlock_vault\<close> succeed, without verifying the passphrase, on a store
  that reads without error and holds no \<open>master_hash\<close>. The guard \<open>if stored_hash:\<close> is
  there and would pass over \<open>verify\<close>, but \<open>unlock_vault\<close> does not reach it: the key
  statement before it raises, as in \<open>initialize_vault\<close>. For every passphrase, every
  hasher and every store \<open>unlock_vault\<close> returns False, the vault is as locked as it was
  and its master key is unchanged; only the connection is replaced. No verification
  takes place, and no unlocking either.
\<close>

theorem unlock_vault_fails:
  "fst (unlock_vault h now p v fs) = False
   \<and> is_unlocked (fst (snd (unlock_vault h now p v fs))) = is_unlocked v
   \<and> master_key (fst (snd (unlock_vault h now p v fs))) = master_key v
   \<and> last_activity (fst (snd (unlock_vault h now p v fs))) = last_activity v
   \<and> snd (snd (unlock_vault h now p v fs)) = snd (sqlite3_connect (db_path v) fs)"
  by (simp add: unlock_vault_raises)

text \<open>
  A plain store with both tables, one entry and no \<open>master_hash\<close>: it reads without
  error through the connection that \<open>unlock_vault\<close> opens, and \<open>unlock_vault\<close> returns
  False on it.
\<close>

theorem unlock_vault_fails_witness:
  "read_tables [''/db/vault.db'' \<mapsto> Database (store_ref\<lparr>db_key := None, vault_metadata := Map.empty\<rparr>)]
       (fst (sqlite3_connect ''/db/vault.db''
          [''/db/vault.db'' \<mapsto> Database (store_ref\<lparr>db_key := None, vault_metadata := Map.empty\<rparr>)]))
     = Inr (store_ref\<lparr>db_key := None, vault_metadata := Map.empty\<rparr>)
   \<and> vault_metadata (store_ref\<lparr>db_key := None, vault_metadata := Map.empty\<rparr>) ''master_hash'' = None
   \<and> fst (unlock_vault argon2_ref 9 ''pw'' vault_ref
        [''/db/vault.db'' \<mapsto> Database (store_ref\<lparr>db_key := None, vault_metadata := Map.empty\<rparr>)])
       = False
   \<and> \<not> is_unlocked (fst (snd (unlock_vault argon2_ref 9 ''pw'' vault_ref
        [''/db/vault.db'' \<mapsto> Database (store_ref\<lparr>db_key := None, vault_metadata := Map.empty\<rparr>)])))"
  using unlock_vault_fails[of argon2_ref 9 "''pw''" vault_ref
      "[''/db/vault.db'' \<mapsto> Database (store_ref\<lparr>db_key := None, vault_metadata := Map.empty\<rparr>)]"]
  by (simp add: connect_fst read_tables_def read_db_def store_ref_def vault_ref_def
        VaultDatabase_init_def)

section \<open>C5: save, then retrieve\<close>










section \<open>C9: normalising twice\<close>

subsection \<open>Blanks, stripping and the whitespace pattern\<close>

lemma lower_char_idem: "lower_char (lower_char c) = lower_char c"
  by (simp add: lower_char_def Let_def)

lemma is_space_blank: "is_space (CHR '' '')"
  by (simp add: is_space_def)

lemma is_space_LF: "is_space (CHR 0x0A)"
  by (simp add: is_space_def)

lemma lower_char_blank: "lower_char (CHR '' '') = CHR '' ''"
  by (simp add: lower_char_def)

lemma single_spaced_Cons:
  "single_spaced (c # ys)
     = ((is_space c \<longrightarrow> c = CHR '' '' \<and> (ys \<noteq> [] \<longrightarrow> \<not> is_space (hd ys))) \<and> single_spaced ys)"
  by (cases ys) auto

lemma single_spaced_append:
  "single_spaced (xs @ ys) \<Longrightarrow> single_spaced xs \<and> single_spaced ys"
proof (induction xs)
  case Nil
  then show ?case by simp
next
  case (Cons x xs)
  then show ?case
    by (cases xs) (auto simp: single_spaced_Cons)
qed

lemma single_spaced_blank:
  "single_spaced u \<Longrightarrow> c \<in> set u \<Longrightarrow> is_space c \<Longrightarrow> c = CHR '' ''"
  by (induction u) (auto simp: single_spaced_Cons)

lemma run_True_hd: "sub_spaces_run True s \<noteq> [] \<Longrightarrow> \<not> is_space (hd (sub_spaces_run True s))"
  by (induction s) auto

lemma single_spaced_run: "single_spaced (sub_spaces_run b s)"
proof (induction s arbitrary: b)
  case Nil
  then show ?case by simp
next
  case (Cons c cs)
  show ?case
    using Cons.IH[of True] Cons.IH[of False] run_True_hd[of cs]
    by (simp add: single_spaced_Cons)
qed

lemma set_run: "c \<in> set (sub_spaces_run b s) \<Longrightarrow> \<not> is_space c \<Longrightarrow> c \<in> set s"
  by (induction s arbitrary: b) (auto simp: is_space_blank split: if_splits)

lemma run_id:
  "single_spaced u \<Longrightarrow> (b \<longrightarrow> u = [] \<or> \<not> is_space (hd u)) \<Longrightarrow> sub_spaces_run b u = u"
proof (induction u arbitrary: b)
  case Nil
  then show ?case by simp
next
  case (Cons c cs)
  show ?case
  proof (cases "is_space c")
    case True
    then have nb: "\<not> b" using Cons.prems(2) by simp
    have c: "c = CHR '' ''" and h: "cs \<noteq> [] \<longrightarrow> \<not> is_space (hd cs)" and s: "single_spaced cs"
      using Cons.prems(1) True by (simp_all add: single_spaced_Cons)
    have "sub_spaces_run True cs = cs"
      using Cons.IH[OF s, of True] h by blast
    then show ?thesis using True nb c by simp
  next
    case False
    have s: "single_spaced cs" using Cons.prems(1) by (simp add: single_spaced_Cons)
    have "sub_spaces_run False cs = cs"
      using Cons.IH[OF s, of False] by simp
    then show ?thesis using False by simp
  qed
qed

lemma rstrip_prefix:
  "s = rev (dropWhile is_space (rev s)) @ rev (takeWhile is_space (rev s))"
proof -
  have "rev s = takeWhile is_space (rev s) @ dropWhile is_space (rev s)" by simp
  then have "rev (rev s) = rev (takeWhile is_space (rev s) @ dropWhile is_space (rev s))"
    by (rule arg_cong)
  then show ?thesis by (simp only: rev_rev_ident rev_append)
qed

lemma set_strip: "c \<in> set (strip s) \<Longrightarrow> c \<in> set s"
  by (auto simp: strip_def dest!: set_dropWhileD)

lemma last_dropWhile_keep: "dropWhile P xs \<noteq> [] \<Longrightarrow> last (dropWhile P xs) = last xs"
proof -
  assume "dropWhile P xs \<noteq> []"
  then have "last (takeWhile P xs @ dropWhile P xs) = last (dropWhile P xs)"
    by (rule last_appendR)
  then show ?thesis by simp
qed

lemma single_spaced_strip: "single_spaced s \<Longrightarrow> single_spaced (strip s)"
proof -
  assume a: "single_spaced s"
  let ?r = "rev (dropWhile is_space (rev s))"
  have "single_spaced (?r @ rev (takeWhile is_space (rev s)))"
    using a rstrip_prefix[of s] by simp
  then have r: "single_spaced ?r" using single_spaced_append by blast
  have "?r = takeWhile is_space ?r @ dropWhile is_space ?r" by simp
  then have "single_spaced (takeWhile is_space ?r @ dropWhile is_space ?r)" using r by simp
  then have "single_spaced (dropWhile is_space ?r)" using single_spaced_append by blast
  then show ?thesis by (simp add: strip_def)
qed

lemma strip_ends:
  "strip s \<noteq> [] \<Longrightarrow> \<not> is_space (hd (strip s)) \<and> \<not> is_space (last (strip s))"
proof -
  assume ne: "strip s \<noteq> []"
  let ?r = "rev (dropWhile is_space (rev s))"
  have s: "strip s = dropWhile is_space ?r" by (simp add: strip_def)
  have h: "\<not> is_space (hd (strip s))"
    using ne unfolding s by (rule hd_dropWhile)
  have rne: "dropWhile is_space (rev s) \<noteq> []"
  proof
    assume e: "dropWhile is_space (rev s) = []"
    have "strip s = []" unfolding s e by simp
    then show False using ne by simp
  qed
  have "last (strip s) = last ?r"
    using ne unfolding s by (rule last_dropWhile_keep)
  also have "\<dots> = hd (dropWhile is_space (rev s))"
    using rne by (simp add: last_rev)
  finally have "last (strip s) = hd (dropWhile is_space (rev s))" .
  moreover have "\<not> is_space (hd (dropWhile is_space (rev s)))"
    using rne by (rule hd_dropWhile)
  ultimately show ?thesis using h by simp
qed

subsection \<open>The suffix pattern\<close>

lemma strip_id:
  assumes "u \<noteq> [] \<longrightarrow> \<not> is_space (hd u) \<and> \<not> is_space (last u)"
  shows "strip u = u"
proof (cases "u = []")
  case True
  then show ?thesis by (simp add: strip_def)
next
  case False
  then have h: "\<not> is_space (hd u)" and l: "\<not> is_space (last u)" using assms by simp_all
  have "rev u \<noteq> []" using False by simp
  moreover have "\<not> is_space (hd (rev u))" using l False by (simp add: hd_rev)
  ultimately have "dropWhile is_space (rev u) = rev u"
    by (cases "rev u") simp_all
  moreover have "dropWhile is_space u = u"
    using False h by (cases u) simp_all
  ultimately show ?thesis by (simp add: strip_def)
qed

lemma set_cut_suffix: "c \<in> set (cut_suffix suf s) \<Longrightarrow> c \<in> set s"
  by (induction s) (auto split: if_splits)

lemma set_sub_suffix: "c \<in> set (sub_suffix suf s) \<Longrightarrow> c \<in> set s"
proof (cases "s \<noteq> [] \<and> last s = CHR 0x0A")
  case True
  assume c: "c \<in> set (sub_suffix suf s)"
  have "c \<in> set (cut_suffix suf (butlast s)) \<or> c = last s"
    using c True by (auto simp: sub_suffix_def)
  moreover have "last s \<in> set s" using True last_in_set[of s] by blast
  ultimately show ?thesis
    by (auto dest: set_cut_suffix in_set_butlastD)
next
  case False
  assume "c \<in> set (sub_suffix suf s)"
  then show ?thesis using False by (auto simp: sub_suffix_def dest: set_cut_suffix)
qed

lemma run_of_spaces:
  assumes "t \<noteq> []" and "is_space (hd t)"
  shows "\<exists>p c. t = p @ c # dropWhile is_space t \<and> is_space c"
proof -
  let ?w = "takeWhile is_space t"
  have ne: "?w \<noteq> []" using assms by (cases t) simp_all
  have "t = ?w @ dropWhile is_space t" by simp
  then have "t = butlast ?w @ last ?w # dropWhile is_space t"
    using ne by (metis append.assoc append_Cons append_Nil append_butlast_last_id)
  moreover have "is_space (last ?w)"
    using ne by (meson last_in_set set_takeWhileD)
  ultimately show ?thesis by blast
qed

lemma suffix_match_tail:
  assumes "suffix_match suf t"
  shows "\<exists>p c. t = p @ c # suf \<and> is_space c"
proof -
  let ?r = "dropWhile is_space t"
  have t: "t \<noteq> []" "is_space (hd t)"
    using assms by (simp_all add: suffix_match_def Let_def)
  obtain p c where p: "t = p @ c # ?r" and c: "is_space c"
    using run_of_spaces[OF t] by blast
  have "?r = suf \<or> (take 3 ?r = ''dot'' \<and> drop 3 ?r \<noteq> [] \<and> is_space (hd (drop 3 ?r))
                     \<and> dropWhile is_space (drop 3 ?r) = suf)"
    using assms by (simp add: suffix_match_def Let_def)
  then show ?thesis
  proof
    assume "?r = suf"
    then show ?thesis using p c by metis
  next
    assume d: "take 3 ?r = ''dot'' \<and> drop 3 ?r \<noteq> [] \<and> is_space (hd (drop 3 ?r))
                     \<and> dropWhile is_space (drop 3 ?r) = suf"
    let ?r' = "drop 3 ?r"
    obtain q e where q: "?r' = q @ e # dropWhile is_space ?r'" and e: "is_space e"
      using run_of_spaces[of ?r'] d by blast
    have "?r = take 3 ?r @ ?r'" by simp
    then have "t = p @ c # (take 3 ?r @ q @ e # suf)"
      using p q d by metis
    then have "t = (p @ c # take 3 ?r @ q) @ e # suf" by simp
    then show ?thesis using e by blast
  qed
qed

lemma cut_suffix_id:
  "(\<And>p t. u = p @ t \<Longrightarrow> \<not> suffix_match suf t) \<Longrightarrow> cut_suffix suf u = u"
proof (induction u)
  case Nil
  then show ?case by simp
next
  case (Cons c cs)
  have "\<not> suffix_match suf (c # cs)"
    using Cons.prems[of "[]" "c # cs"] by simp
  moreover have "cut_suffix suf cs = cs"
  proof (rule Cons.IH)
    fix p t
    assume "cs = p @ t"
    then have "c # cs = (c # p) @ t" by simp
    then show "\<not> suffix_match suf t" by (rule Cons.prems)
  qed
  ultimately show ?case by simp
qed

lemma ends_with_append: "ends_with x (p @ x)"
  by (simp add: ends_with_def)

lemma sub_suffix_id:
  assumes "normal_form u" and "\<not> ends_with (CHR '' '' # suf) u"
  shows "sub_suffix suf u = u"
proof -
  have nl: "\<not> (u \<noteq> [] \<and> last u = CHR 0x0A)"
    using assms(1) is_space_LF by (auto simp: normal_form_def)
  have "cut_suffix suf u = u"
  proof (rule cut_suffix_id)
    fix p t
    assume u: "u = p @ t"
    show "\<not> suffix_match suf t"
    proof
      assume "suffix_match suf t"
      then obtain q c where t: "t = q @ c # suf" and c: "is_space c"
        using suffix_match_tail by blast
      have "c \<in> set u" using u t by simp
      then have "c = CHR '' ''"
        using assms(1) c single_spaced_blank by (auto simp: normal_form_def)
      then have "u = (p @ q) @ CHR '' '' # suf" using u t by simp
      then have "ends_with (CHR '' '' # suf) u"
        using ends_with_append by metis
      then show False using assms(2) by simp
    qed
  qed
  then show ?thesis using nl by (auto simp: sub_suffix_def)
qed

subsection \<open>The normaliser\<close>

lemma set_lower: "c \<in> set (lower t) \<Longrightarrow> lower_char c = c"
  by (auto simp: lower_def lower_char_idem)

lemma set_sub_punctuation:
  "c \<in> set (sub_punctuation s) \<Longrightarrow> \<not> is_space c \<Longrightarrow> is_word c \<and> c \<in> set s"
  by (auto simp: sub_punctuation_def is_space_blank split: if_splits)

lemma normal_form_strip_spaces:
  assumes "\<And>c. c \<in> set y \<Longrightarrow> \<not> is_space c \<Longrightarrow> is_word c \<and> lower_char c = c"
  shows "normal_form (strip (sub_spaces y))"
proof -
  have 1: "single_spaced (strip (sub_spaces y))"
    unfolding sub_spaces_def by (rule single_spaced_strip[OF single_spaced_run])
  have 2: "\<forall>c \<in> set (strip (sub_spaces y)). \<not> is_space c \<longrightarrow> is_word c \<and> lower_char c = c"
  proof (intro ballI impI)
    fix c
    assume c: "c \<in> set (strip (sub_spaces y))" and n: "\<not> is_space c"
    have "c \<in> set (sub_spaces_run False y)"
      using set_strip[OF c] by (simp add: sub_spaces_def)
    then have "c \<in> set y" using n by (rule set_run)
    then show "is_word c \<and> lower_char c = c" using n by (rule assms)
  qed
  have 3: "strip (sub_spaces y) \<noteq> [] \<longrightarrow>
      \<not> is_space (hd (strip (sub_spaces y))) \<and> \<not> is_space (last (strip (sub_spaces y)))"
    using strip_ends by blast
  show ?thesis unfolding normal_form_def using 1 2 3 by blast
qed

lemma normalize_text_normal_form: "normal_form (DeterministicResolver_normalize_text t)"
proof -
  let ?x = "sub_suffix ''mil'' (sub_suffix ''gov'' (sub_suffix ''edu'' (sub_suffix ''net''
             (sub_suffix ''org'' (sub_suffix ''com'' (strip (lower t)))))))"
  have x: "\<And>c. c \<in> set ?x \<Longrightarrow> lower_char c = c"
  proof -
    fix c
    assume "c \<in> set ?x"
    then have "c \<in> set (strip (lower t))"
      by (blast dest: set_sub_suffix)
    then have "c \<in> set (lower t)" by (rule set_strip)
    then show "lower_char c = c" by (rule set_lower)
  qed
  have "normal_form (strip (sub_spaces (sub_punctuation ?x)))"
  proof (rule normal_form_strip_spaces)
    fix c
    assume "c \<in> set (sub_punctuation ?x)" and "\<not> is_space c"
    then have "is_word c \<and> c \<in> set ?x" by (rule set_sub_punctuation)
    then show "is_word c \<and> lower_char c = c" using x by blast
  qed
  then show ?thesis by (simp add: DeterministicResolver_normalize_text_def Let_def)
qed

lemma lower_id: "normal_form u \<Longrightarrow> lower u = u"
proof -
  assume n: "normal_form u"
  have "\<And>c. c \<in> set u \<Longrightarrow> lower_char c = c"
  proof -
    fix c
    assume c: "c \<in> set u"
    show "lower_char c = c"
    proof (cases "is_space c")
      case True
      then have "c = CHR '' ''"
        using n c single_spaced_blank by (auto simp: normal_form_def)
      then show ?thesis by (simp add: lower_char_blank)
    next
      case False
      then show ?thesis using n c by (simp add: normal_form_def)
    qed
  qed
  then show ?thesis unfolding lower_def by (simp add: map_idI)
qed

lemma sub_punctuation_id: "normal_form u \<Longrightarrow> sub_punctuation u = u"
proof -
  assume n: "normal_form u"
  have "\<And>c. c \<in> set u \<Longrightarrow> (if is_word c \<or> is_space c then c else CHR '' '') = c"
    using n by (auto simp: normal_form_def)
  then show ?thesis unfolding sub_punctuation_def by (simp add: map_idI)
qed

lemma sub_spaces_id: "normal_form u \<Longrightarrow> sub_spaces u = u"
  unfolding sub_spaces_def by (rule run_id) (simp_all add: normal_form_def)

lemma normal_form_strip_id: "normal_form u \<Longrightarrow> strip u = u"
  by (rule strip_id) (simp add: normal_form_def)

lemma ends_in_domain_word_iff:
  "ends_in_domain_word u \<longleftrightarrow>
     ends_with (CHR '' '' # ''com'') u \<or> ends_with (CHR '' '' # ''org'') u
     \<or> ends_with (CHR '' '' # ''net'') u \<or> ends_with (CHR '' '' # ''edu'') u
     \<or> ends_with (CHR '' '' # ''gov'') u \<or> ends_with (CHR '' '' # ''mil'') u"
  by (simp add: ends_in_domain_word_def domain_words_def)

lemma normalize_text_fixed:
  assumes "normal_form u" and "\<not> ends_in_domain_word u"
  shows "DeterministicResolver_normalize_text u = u"
proof -
  have e: "\<not> ends_with (CHR '' '' # ''com'') u" "\<not> ends_with (CHR '' '' # ''org'') u"
    "\<not> ends_with (CHR '' '' # ''net'') u" "\<not> ends_with (CHR '' '' # ''edu'') u"
    "\<not> ends_with (CHR '' '' # ''gov'') u" "\<not> ends_with (CHR '' '' # ''mil'') u"
    using assms(2) unfolding ends_in_domain_word_iff by blast+
  have s: "sub_suffix ''com'' u = u" "sub_suffix ''org'' u = u" "sub_suffix ''net'' u = u"
    "sub_suffix ''edu'' u = u" "sub_suffix ''gov'' u = u" "sub_suffix ''mil'' u = u"
    using e sub_suffix_id[OF assms(1)] by blast+
  show ?thesis
    unfolding DeterministicResolver_normalize_text_def Let_def
    by (simp only: lower_id[OF assms(1)] normal_form_strip_id[OF assms(1)] s
          sub_punctuation_id[OF assms(1)] sub_spaces_id[OF assms(1)])
qed

lemma normalize_amazon_com:
  "DeterministicResolver_normalize_text ''amazon.com'' = ''amazon com''"
  by code_simp

lemma normalize_amazon_com_twice:
  "DeterministicResolver_normalize_text ''amazon com'' = ''amazon''"
  by code_simp

lemma normalize_messy:
  "DeterministicResolver_normalize_text ''  Google   Mail!! dot COM '' = ''google mail''"
  by code_simp

text \<open>
  Claim C9: normalising twice is normalising once. \<open>_normalize_text\<close> strips a domain
  word only when whitespace precedes it, strips each of the six words once and in a
  fixed order, and turns punctuation into blanks only afterwards. So \<open>amazon.com\<close>
  becomes \<open>amazon com\<close>, and a second pass takes the \<open>com\<close> away.
\<close>

theorem normalize_not_idempotent:
  "DeterministicResolver_normalize_text (DeterministicResolver_normalize_text ''amazon.com'')
     \<noteq> DeterministicResolver_normalize_text ''amazon.com''"
  by (simp add: normalize_amazon_com normalize_amazon_com_twice)

text \<open>
  C9 as amended: for every text whose normalised form does not end in a blank followed
  by one of \<open>com\<close>, \<open>org\<close>, \<open>net\<close>, \<open>edu\<close>, \<open>gov\<close>, \<open>mil\<close>, normalising the normalised
  form gives it back.
\<close>

theorem normalize_idempotent_off_domain_words:
  "\<not> ends_in_domain_word (DeterministicResolver_normalize_text t) \<Longrightarrow>
   DeterministicResolver_normalize_text (DeterministicResolver_normalize_text t)
     = DeterministicResolver_normalize_text t"
  by (rule normalize_text_fixed[OF normalize_text_normal_form])

theorem normalize_idempotent_off_domain_words_witness:
  "DeterministicResolver_normalize_text ''  Google   Mail!! dot COM '' = ''google mail''
   \<and> DeterministicResolver_normalize_text
        (DeterministicResolver_normalize_text ''  Google   Mail!! dot COM '')
      = DeterministicResolver_normalize_text ''  Google   Mail!! dot COM ''"
proof -
  have "\<not> ends_in_domain_word ''google mail''"
    by (simp add: ends_in_domain_word_iff ends_with_def)
  then have "\<not> ends_in_domain_word
      (DeterministicResolver_normalize_text ''  Google   Mail!! dot COM '')"
    by (simp add: normalize_messy)
  then show ?thesis
    using normalize_idempotent_off_domain_words[of "''  Google   Mail!! dot COM ''"]
      normalize_messy by blast
qed

end
